theory Spec2Isabelle
  imports Complex_Main "HOL-Library.Sublist"
begin

section \<open>Data model (data/models/schemas.py)\<close>

text \<open>
  Python floats are modelled as \<^typ>\<open>real\<close>, Python ints as \<^typ>\<open>int\<close>, strings as
  \<^typ>\<open>string\<close>. Field names carry the name of their dataclass as a prefix, because record
  fields are global constants. Left out are the fields that no modelled function reads
  or writes: the timestamps and dates (\<open>fetched_at\<close>, \<open>analyzed_at\<close>, \<open>date\<close>,
  \<open>game_date\<close>, \<open>start_time\<close>, \<open>injury_date\<close>, \<open>expected_return\<close>), the betting lines
  and the status of a game other than the spread, and \<open>conditional_splits\<close>,
  \<open>sample_quality_score\<close> and \<open>narrative\<close> of an analysis.
\<close>

record prop_bet =
  prop_player_id :: int
  prop_player_name :: string
  prop_team_abbr :: string
  prop_game_id :: string
  prop_opponent_abbr :: string
  prop_type :: string
  prop_line :: real
  prop_over_odds :: int
  prop_under_odds :: int
  prop_book :: string
  prop_is_home :: bool

text \<open>The values of the untyped \<open>supporting_data\<close> dictionary of an edge.\<close>

datatype sd_value = SD_str string | SD_num real | SD_int int

record edge =
  edge_type :: string
  edge_description :: string
  edge_affected_stats :: "string list"
  edge_strength :: real
  edge_supporting_data :: "(string \<times> sd_value) list"
  edge_benefiting_player_ids :: "int list"
  edge_game_id :: "string option"
  edge_team_abbr :: "string option"
  edge_is_primary :: bool

record injury =
  inj_player_id :: int
  inj_player_name :: string
  inj_team_id :: int
  inj_team_abbr :: string
  inj_status :: string
  inj_injury_type :: string
  inj_usage_rate :: real
  inj_minutes_per_game :: real
  inj_notes :: string

record player_game_log =
  log_player_id :: int
  log_game_id :: string
  log_opponent_id :: int
  log_opponent_abbr :: string
  log_is_home :: bool
  log_minutes :: real
  log_points :: int
  log_rebounds :: int
  log_assists :: int
  log_fg3m :: int
  log_fgm :: int
  log_fga :: int
  log_ftm :: int
  log_fta :: int
  log_steals :: int
  log_blocks :: int
  log_turnovers :: int
  log_started :: bool
  log_plus_minus :: int
  log_team_won :: bool

text \<open>The derived properties of \<open>PlayerGameLog\<close>.\<close>

definition log_pra :: "player_game_log \<Rightarrow> int" where
  "log_pra g = log_points g + log_rebounds g + log_assists g"

definition log_pts_asts :: "player_game_log \<Rightarrow> int" where
  "log_pts_asts g = log_points g + log_assists g"

definition log_pts_rebs :: "player_game_log \<Rightarrow> int" where
  "log_pts_rebs g = log_points g + log_rebounds g"

definition log_rebs_asts :: "player_game_log \<Rightarrow> int" where
  "log_rebs_asts g = log_rebounds g + log_assists g"

record game =
  game_id :: string
  game_home_team_id :: int
  game_away_team_id :: int
  game_home_team_abbr :: string
  game_away_team_abbr :: string
  game_spread :: "real option"

text \<open>
  \<open>Player\<close> and \<open>Team\<close> with the fields that the matchup engine sets; every other field
  keeps its dataclass default and is never read by the modelled functions.
\<close>

record player =
  player_id :: int
  player_name :: string
  player_team_id :: int
  player_team_abbr :: string
  player_position :: string

record team_defense_stats =
  tds_team_id :: int
  tds_team_abbr :: string
  tds_pts_allowed :: real
  tds_reb_allowed :: real
  tds_ast_allowed :: real
  tds_fg3m_allowed :: real
  tds_pts_rank :: int
  tds_reb_rank :: int
  tds_ast_rank :: int
  tds_fg3m_rank :: int

record team =
  team_id :: int
  team_abbr :: string
  team_name :: string
  team_opp_ppg :: real
  team_opp_rpg :: real
  team_opp_apg :: real
  team_def_rank_pts :: int
  team_def_rank_reb :: int
  team_def_rank_ast :: int

text \<open>
  A risk note is an f-string built from two floats; the model keeps the kind of the note
  and the two numbers instead of the formatted text.
\<close>

datatype risk_note =
  Low_min_game real real
  | Minutes_trending_down real real

text \<open>The schedule context comes from an external collector and is only stored.\<close>

typedecl schedule_context

record prop_analysis =
  pa_prop :: prop_bet
  pa_player :: player
  pa_opponent :: team
  pa_game :: game
  pa_edges :: "edge list"
  pa_player_game_logs :: "player_game_log list"
  pa_schedule :: "schedule_context option"
  pa_projected_low :: real
  pa_projected_high :: real
  pa_projected_mid :: real
  pa_direction :: string
  pa_confidence_score :: real
  pa_minutes_security_score :: real
  pa_edge_strength_score :: real
  pa_risk_notes :: "risk_note list"

text \<open>The settings that the modelled functions read (config/settings.py).\<close>

record settings =
  max_picks :: int
  min_minutes_threshold :: real
  min_minutes_last_n :: int
  min_edge_strength :: real

definition default_settings :: settings where
  "default_settings =
     \<lparr>max_picks = 4, min_minutes_threshold = 24.0, min_minutes_last_n = 5,
      min_edge_strength = 0.5\<rparr>"

section \<open>Python primitives\<close>

datatype py_error = ZeroDivisionError

text \<open>\<open>xs[:n]\<close>: a negative bound counts from the end of the list.\<close>

definition py_slice_to :: "int \<Rightarrow> 'a list \<Rightarrow> 'a list" where
  "py_slice_to n xs =
     (if 0 \<le> n then take (nat n) xs else take (length xs - nat (- n)) xs)"

text \<open>\<open>d.get(k, default)\<close> on a dictionary.\<close>

definition dict_get :: "('k \<rightharpoonup> 'v) \<Rightarrow> 'k \<Rightarrow> 'v \<Rightarrow> 'v" where
  "dict_get d k dflt = (case d k of None \<Rightarrow> dflt | Some v \<Rightarrow> v)"

text \<open>
  A dictionary of lists whose order of insertion matters: \<open>d[k].append(v)\<close>, after
  \<open>d[k] = []\<close> for a new key.
\<close>

fun dict_append :: "'k \<Rightarrow> 'v \<Rightarrow> ('k \<times> 'v list) list \<Rightarrow> ('k \<times> 'v list) list" where
  "dict_append k v [] = [(k, [v])]"
| "dict_append k v ((k', vs) # d) =
     (if k = k' then (k', vs @ [v]) # d else (k', vs) # dict_append k v d)"

text \<open>
  \<open>statistics.stdev\<close>, the sample standard deviation. Python raises \<open>StatisticsError\<close>
  for fewer than two data points; every call of the modelled code stands under the guard
  \<open>len(values) > 1\<close>, which the model keeps at each call.
\<close>

definition sample_variance :: "real list \<Rightarrow> real" where
  "sample_variance xs =
     (let m = sum_list xs / real (length xs)
      in sum_list (map (\<lambda>x. (x - m)\<^sup>2) xs) / real (length xs - 1))"

definition stdev :: "real list \<Rightarrow> real" where
  "stdev xs = sqrt (sample_variance xs)"

section \<open>Injury edges (analysis/edge\_discovery/injury\_edges.py)\<close>

definition calculate_injury_edge_strength :: "injury \<Rightarrow> real" where
  "calculate_injury_edge_strength ij =
     (let base_strength = 0.3;
          base_strength =
            (if inj_usage_rate ij \<ge> 30.0 then base_strength + 0.3
             else if inj_usage_rate ij \<ge> 25.0 then base_strength + 0.2
             else if inj_usage_rate ij \<ge> 20.0 then base_strength + 0.1
             else base_strength);
          base_strength =
            (if inj_minutes_per_game ij \<ge> 35.0 then base_strength + 0.2
             else if inj_minutes_per_game ij \<ge> 30.0 then base_strength + 0.1
             else base_strength);
          base_strength =
            (if inj_status ij = ''out'' then base_strength + 0.1 else base_strength)
      in min base_strength 1.0)"

definition calculate_teammate_out_strength :: "injury \<Rightarrow> real" where
  "calculate_teammate_out_strength ij =
     (let base_strength = 0.2;
          base_strength =
            (if inj_usage_rate ij \<ge> 30.0 then base_strength + 0.25
             else if inj_usage_rate ij \<ge> 25.0 then base_strength + 0.15
             else if inj_usage_rate ij \<ge> 20.0 then base_strength + 0.1
             else base_strength);
          base_strength =
            (if inj_minutes_per_game ij \<ge> 35.0 then base_strength + 0.15
             else if inj_minutes_per_game ij \<ge> 30.0 then base_strength + 0.1
             else base_strength)
      in min base_strength 0.8)"

section \<open>Pace edges (analysis/edge\_discovery/scheme\_edges.py)\<close>

text \<open>
  The team statistics frame is a list of rows (\<open>TEAM_ID\<close>, \<open>PACE\<close> if present);
  \<open>row.get("PACE", 100.0)\<close> reads the first row of a team. The formatter \<open>fmt1\<close> stands
  for the float format \<open>:.1f\<close> of the descriptions.
\<close>

definition team_pace :: "(int \<times> real option) list \<Rightarrow> int \<Rightarrow> real option" where
  "team_pace team_stats_df tid =
     (case filter (\<lambda>r. fst r = tid) team_stats_df of
        [] \<Rightarrow> None
      | r # _ \<Rightarrow> Some (case snd r of None \<Rightarrow> 100.0 | Some p \<Rightarrow> p))"

definition high_pace_edge :: "(real \<Rightarrow> string) \<Rightarrow> game \<Rightarrow> real \<Rightarrow> real \<Rightarrow> edge" where
  "high_pace_edge fmt1 g home_pace away_pace =
     (let avg_pace = (home_pace + away_pace) / 2;
          strength = 0.3 + ((avg_pace - 100) * 0.05)
      in \<lparr>edge_type = ''pace'',
          edge_description = ''High pace environment ('' @ fmt1 avg_pace @
            '') - increased counting stat opportunities'',
          edge_affected_stats = [''points'', ''rebounds'', ''assists'', ''threes'',
            ''pts_rebs_asts'', ''pts_asts'', ''pts_rebs'', ''rebs_asts''],
          edge_strength = min strength 0.6,
          edge_supporting_data = [(''home_pace'', SD_num home_pace),
            (''away_pace'', SD_num away_pace), (''combined_pace'', SD_num avg_pace),
            (''pace_type'', SD_str ''high'')],
          edge_benefiting_player_ids = [],
          edge_game_id = Some (game_id g),
          edge_team_abbr = Some (game_home_team_abbr g),
          edge_is_primary = False\<rparr>)"

definition pace_mismatch_edge :: "(real \<Rightarrow> string) \<Rightarrow> game \<Rightarrow> real \<Rightarrow> real \<Rightarrow> edge" where
  "pace_mismatch_edge fmt1 g home_pace away_pace =
     (let pace_diff = \<bar>home_pace - away_pace\<bar>;
          fast_team = (if home_pace > away_pace then game_home_team_abbr g
                       else game_away_team_abbr g);
          slow_team = (if home_pace > away_pace then game_away_team_abbr g
                       else game_home_team_abbr g)
      in \<lparr>edge_type = ''pace'',
          edge_description = ''Pace mismatch: '' @ fast_team @ '' ('' @
            fmt1 (max home_pace away_pace) @ '') vs '' @ slow_team @ '' ('' @
            fmt1 (min home_pace away_pace) @ '')'',
          edge_affected_stats = [''points'', ''rebounds'', ''assists''],
          edge_strength = 0.3 + (pace_diff * 0.05),
          edge_supporting_data = [(''fast_team'', SD_str fast_team),
            (''slow_team'', SD_str slow_team), (''pace_difference'', SD_num pace_diff)],
          edge_benefiting_player_ids = [],
          edge_game_id = Some (game_id g),
          edge_team_abbr = Some fast_team,
          edge_is_primary = False\<rparr>)"

text \<open>The body of the loop over the games.\<close>

definition pace_edges_for_game ::
  "(real \<Rightarrow> string) \<Rightarrow> (int \<times> real option) list \<Rightarrow> game \<Rightarrow> edge list" where
  "pace_edges_for_game fmt1 team_stats_df g =
     (case team_pace team_stats_df (game_home_team_id g) of
        None \<Rightarrow> []
      | Some home_pace \<Rightarrow>
          (case team_pace team_stats_df (game_away_team_id g) of
             None \<Rightarrow> []
           | Some away_pace \<Rightarrow>
               (if (home_pace + away_pace) / 2 \<ge> 102.0
                then [high_pace_edge fmt1 g home_pace away_pace] else []) @
               (if \<bar>home_pace - away_pace\<bar> \<ge> 3.0
                then [pace_mismatch_edge fmt1 g home_pace away_pace] else [])))"

definition find_pace_edges ::
  "(real \<Rightarrow> string) \<Rightarrow> (int \<times> real option) list \<Rightarrow> game list \<Rightarrow> edge list" where
  "find_pace_edges fmt1 team_stats_df games =
     (if team_stats_df = [] then []
      else concat (map (pace_edges_for_game fmt1 team_stats_df) games))"

section \<open>Weighted averages (data/collectors/nba\_stats.py)\<close>

text \<open>The keys \<open>f"last_{window}"\<close> and \<open>"season"\<close> of the dictionary of averages.\<close>

datatype avg_key = Last int | Season

text \<open>The chain of \<open>if\<close>/\<open>elif\<close> that selects the column of a statistic.\<close>

definition stat_column :: "string \<Rightarrow> player_game_log list \<Rightarrow> real list" where
  "stat_column stat wlogs =
     (if stat = ''points'' then map (\<lambda>g. real_of_int (log_points g)) wlogs
      else if stat = ''rebounds'' then map (\<lambda>g. real_of_int (log_rebounds g)) wlogs
      else if stat = ''assists'' then map (\<lambda>g. real_of_int (log_assists g)) wlogs
      else if stat = ''fg3m'' \<or> stat = ''threes'' then map (\<lambda>g. real_of_int (log_fg3m g)) wlogs
      else if stat = ''pra'' \<or> stat = ''pts_rebs_asts'' then map (\<lambda>g. real_of_int (log_pra g)) wlogs
      else if stat = ''pts_asts'' then map (\<lambda>g. real_of_int (log_pts_asts g)) wlogs
      else if stat = ''pts_rebs'' then map (\<lambda>g. real_of_int (log_pts_rebs g)) wlogs
      else if stat = ''rebs_asts'' then map (\<lambda>g. real_of_int (log_rebs_asts g)) wlogs
      else if stat = ''minutes'' then map log_minutes wlogs
      else [0])"

text \<open>\<open>sum(values) / len(values) if values else 0.0\<close>\<close>

definition average :: "real list \<Rightarrow> real" where
  "average vals = (if vals \<noteq> [] then sum_list vals / real (length vals) else 0.0)"

definition window_step ::
  "player_game_log list \<Rightarrow> string \<Rightarrow> int \<Rightarrow> (avg_key \<rightharpoonup> real) \<Rightarrow> (avg_key \<rightharpoonup> real)" where
  "window_step game_logs stat window averages =
     (let wlogs = py_slice_to window game_logs
      in if wlogs = [] then averages(Last window \<mapsto> 0.0)
         else averages(Last window \<mapsto> average (stat_column stat wlogs)))"

definition calculate_weighted_averages ::
  "player_game_log list \<Rightarrow> string \<Rightarrow> int list \<Rightarrow> (avg_key \<rightharpoonup> real)" where
  "calculate_weighted_averages game_logs stat windows =
     (if game_logs = [] then fold (\<lambda>w d. d(Last w \<mapsto> 0.0)) windows Map.empty
      else (fold (window_step game_logs stat) windows Map.empty)
             (Season \<mapsto> average (stat_column stat game_logs)))"

section \<open>Matchup engine (analysis/matchup\_engine.py)\<close>

definition find_game_for_team :: "string option \<Rightarrow> game list \<Rightarrow> game option" where
  "find_game_for_team t games =
     List.find (\<lambda>g. Some (game_home_team_abbr g) = t \<or> Some (game_away_team_abbr g) = t) games"

text \<open>One round of the loop of \<open>_find_edges_for_prop\<close> over the edges of the team.\<close>

definition append_if_new :: "edge \<Rightarrow> edge list \<Rightarrow> edge list" where
  "append_if_new e matching = (if e \<notin> set matching then matching @ [e] else matching)"

definition affects_any :: "edge \<Rightarrow> string list \<Rightarrow> bool" where
  "affects_any e stats = list_ex (\<lambda>stat. stat \<in> set (edge_affected_stats e)) stats"

definition edge_step :: "string \<Rightarrow> edge \<Rightarrow> edge list \<Rightarrow> edge list" where
  "edge_step ptype e matching0 =
     (let matching = (if ptype \<in> set (edge_affected_stats e) then matching0 @ [e]
                      else matching0)
      in if ptype = ''pts_rebs_asts'' then
           (if affects_any e [''points'', ''rebounds'', ''assists'']
            then append_if_new e matching else matching)
         else if ptype = ''pts_asts'' then
           (if affects_any e [''points'', ''assists'']
            then append_if_new e matching else matching)
         else if ptype = ''pts_rebs'' then
           (if affects_any e [''points'', ''rebounds'']
            then append_if_new e matching else matching)
         else if ptype = ''rebs_asts'' then
           (if affects_any e [''rebounds'', ''assists'']
            then append_if_new e matching else matching)
         else matching)"

definition find_edges_for_prop :: "prop_bet \<Rightarrow> edge list \<Rightarrow> edge list" where
  "find_edges_for_prop p edges = fold (edge_step (prop_type p)) edges []"

text \<open>What one round of the loop of \<open>_get_stat_values\<close> appends.\<close>

definition stat_value_of :: "string \<Rightarrow> player_game_log \<Rightarrow> real list" where
  "stat_value_of ptype g =
     (if ptype = ''points'' then [real_of_int (log_points g)]
      else if ptype = ''rebounds'' then [real_of_int (log_rebounds g)]
      else if ptype = ''assists'' then [real_of_int (log_assists g)]
      else if ptype \<in> set [''threes'', ''fg3m''] then [real_of_int (log_fg3m g)]
      else if ptype \<in> set [''pra'', ''pts_rebs_asts''] then [real_of_int (log_pra g)]
      else if ptype = ''pts_asts'' then [real_of_int (log_pts_asts g)]
      else if ptype = ''pts_rebs'' then [real_of_int (log_pts_rebs g)]
      else if ptype = ''rebs_asts'' then [real_of_int (log_rebs_asts g)]
      else [])"

definition get_stat_values :: "player_game_log list \<Rightarrow> string \<Rightarrow> real list" where
  "get_stat_values logs ptype = fold (\<lambda>g vals. vals @ stat_value_of ptype g) logs []"

definition edge_adjustment_loop :: "edge list \<Rightarrow> real" where
  "edge_adjustment_loop edges =
     fold (\<lambda>e adj. if edge_strength e > 0.5 then adj + (edge_strength e - 0.5) * 2 else adj)
       edges 0.0"

definition calculate_projection_range ::
  "prop_bet \<Rightarrow> player_game_log list \<Rightarrow> edge list \<Rightarrow> real \<times> real" where
  "calculate_projection_range p logs edges =
     (if logs = [] then (prop_line p - 2, prop_line p + 2)
      else
        (let averages = calculate_weighted_averages logs (prop_type p) [5, 10, 15];
             recent = dict_get averages (Last 5) (prop_line p);
             medium = dict_get averages (Last 10) (prop_line p);
             season = dict_get averages Season (prop_line p);
             baseline = (recent * 0.5) + (medium * 0.3) + (season * 0.2);
             edge_adjustment = min (max (edge_adjustment_loop edges) (- 2)) 4;
             adjusted_baseline = baseline + edge_adjustment;
             std = (if length logs \<ge> 5 then
                      (let vals = get_stat_values (py_slice_to 10 logs) (prop_type p)
                       in if vals \<noteq> [] then (if length vals > 1 then stdev vals else 2.0)
                          else 2.0)
                    else 2.0)
         in (adjusted_baseline - std, adjusted_baseline + std)))"

definition determine_direction :: "prop_bet \<Rightarrow> real \<Rightarrow> real \<Rightarrow> string" where
  "determine_direction p projected_low projected_high =
     (let projected_mid = (projected_low + projected_high) / 2
      in if projected_mid > prop_line p then ''over'' else ''under'')"

text \<open>\<open>TEAM_IDS\<close> of config/constants.py.\<close>

definition TEAM_IDS :: "(string \<times> int) list" where
  "TEAM_IDS =
     [(''ATL'', 1610612737), (''BOS'', 1610612738), (''BKN'', 1610612751),
      (''CHA'', 1610612766), (''CHI'', 1610612741), (''CLE'', 1610612739),
      (''DAL'', 1610612742), (''DEN'', 1610612743), (''DET'', 1610612765),
      (''GSW'', 1610612744), (''HOU'', 1610612745), (''IND'', 1610612754),
      (''LAC'', 1610612746), (''LAL'', 1610612747), (''MEM'', 1610612763),
      (''MIA'', 1610612748), (''MIL'', 1610612749), (''MIN'', 1610612750),
      (''NOP'', 1610612740), (''NYK'', 1610612752), (''OKC'', 1610612760),
      (''ORL'', 1610612753), (''PHI'', 1610612755), (''PHX'', 1610612756),
      (''POR'', 1610612757), (''SAC'', 1610612758), (''SAS'', 1610612759),
      (''TOR'', 1610612761), (''UTA'', 1610612762), (''WAS'', 1610612764)]"

definition get_team_id :: "string \<Rightarrow> int option" where
  "get_team_id abbr = map_of TEAM_IDS abbr"

text \<open>
  What the engine reads from the collectors and from \<open>nba_api\<close>: the rows
  (\<open>PLAYER_NAME\<close>, \<open>TEAM_ABBREVIATION\<close>) of the league statistics, the static list of
  players (\<open>full_name\<close>, \<open>id\<close>), the game logs of a player, the defensive statistics of a
  team and the schedule context of a pairing.
\<close>

record env =
  league_stats :: "(string \<times> string) list"
  static_players :: "(string \<times> int) list"
  get_player_game_logs :: "int \<Rightarrow> player_game_log list"
  get_team_defensive_stats :: "int \<Rightarrow> team_defense_stats option"
  get_schedule_context :: "string \<Rightarrow> string \<Rightarrow> schedule_context option"

text \<open>
  The objects that the caller hands to the engine. The engine writes to fields of the
  \<open>Prop\<close> objects in place, so the props are a store indexed by their position in the
  input list, and the engine returns the store it leaves behind.
\<close>

record heap =
  heap_props :: "prop_bet list"
  heap_edges :: "edge list"

definition player_name_to_team :: "(string \<times> string) list \<Rightarrow> (string \<rightharpoonup> string)" where
  "player_name_to_team rows =
     fold (\<lambda>(name, team) d. if name \<noteq> [] \<and> team \<noteq> [] then d(name \<mapsto> team) else d)
       rows Map.empty"

definition group_edges_by_team :: "edge list \<Rightarrow> (string option \<times> edge list) list" where
  "group_edges_by_team edges = fold (\<lambda>e d. dict_append (edge_team_abbr e) e d) edges []"

text \<open>
  One round of the loop that groups the props by player: it overwrites the team of a prop
  whose team is unknown, then files the prop (its index in the store) under its player.
\<close>

definition group_prop_step ::
  "(string \<rightharpoonup> string) \<Rightarrow> nat \<Rightarrow> prop_bet list \<times> (string \<times> nat list) list
     \<Rightarrow> prop_bet list \<times> (string \<times> nat list) list" where
  "group_prop_step name_to_team i st =
     (let ps = fst st; props_by_player = snd st;
          name = prop_player_name (ps ! i);
          ps' = (if prop_team_abbr (ps ! i) = ''UNK'' then
                   (case name_to_team name of
                      Some t \<Rightarrow> ps[i := (ps ! i)\<lparr>prop_team_abbr := t\<rparr>]
                    | None \<Rightarrow> ps)
                 else ps)
      in (ps', dict_append name i props_by_player))"

definition group_props_by_player ::
  "(string \<rightharpoonup> string) \<Rightarrow> prop_bet list \<Rightarrow> prop_bet list \<times> (string \<times> nat list) list" where
  "group_props_by_player name_to_team ps =
     fold (group_prop_step name_to_team) [0..<length ps] (ps, [])"

definition lookup_player_id :: "(string \<times> int) list \<Rightarrow> string \<Rightarrow> int option" where
  "lookup_player_id all_players name =
     map_option snd (List.find (\<lambda>p. fst p = name) all_players)"

text \<open>
  \<open>_create_prop_analysis\<close> on the prop at index \<open>i\<close> of the store. When the prop has no
  player id and the static list knows the name, the id is written back to the prop. The
  analysis holds the prop object itself, so it shows the id written back.
\<close>

definition create_prop_analysis ::
  "env \<Rightarrow> prop_bet list \<Rightarrow> nat \<Rightarrow> edge list \<Rightarrow> game \<Rightarrow> string
     \<Rightarrow> prop_bet list \<times> prop_analysis" where
  "create_prop_analysis ev ps i edges g opponent_abbr =
     (let p0 = ps ! i;
          opponent_team_id = get_team_id opponent_abbr;
          opponent_defense =
            (case opponent_team_id of
               None \<Rightarrow> None
             | Some tid \<Rightarrow> if tid \<noteq> 0 then get_team_defensive_stats ev tid else None);
          opponent0 = \<lparr>team_id = (case opponent_team_id of None \<Rightarrow> 0 | Some tid \<Rightarrow> tid),
            team_abbr = opponent_abbr, team_name = opponent_abbr,
            team_opp_ppg = 0.0, team_opp_rpg = 0.0, team_opp_apg = 0.0,
            team_def_rank_pts = 15, team_def_rank_reb = 15, team_def_rank_ast = 15\<rparr>;
          opponent =
            (case opponent_defense of
               None \<Rightarrow> opponent0
             | Some d \<Rightarrow> opponent0\<lparr>team_opp_ppg := tds_pts_allowed d,
                 team_opp_rpg := tds_reb_allowed d, team_opp_apg := tds_ast_allowed d,
                 team_def_rank_pts := tds_pts_rank d, team_def_rank_reb := tds_reb_rank d,
                 team_def_rank_ast := tds_ast_rank d\<rparr>);
          found = (if prop_player_id p0 = 0
                   then lookup_player_id (static_players ev) (prop_player_name p0)
                   else None);
          pid = (case found of None \<Rightarrow> prop_player_id p0 | Some n \<Rightarrow> n);
          ps' = (case found of None \<Rightarrow> ps | Some n \<Rightarrow> ps[i := p0\<lparr>prop_player_id := n\<rparr>]);
          p = (case found of None \<Rightarrow> p0 | Some n \<Rightarrow> p0\<lparr>prop_player_id := n\<rparr>);
          pl = \<lparr>player_id = pid, player_name = prop_player_name p0, player_team_id = 0,
            player_team_abbr = prop_team_abbr p0, player_position = ''''\<rparr>;
          game_logs = (if pid \<noteq> 0 then get_player_game_logs ev pid else []);
          schedule = get_schedule_context ev (prop_team_abbr p) opponent_abbr;
          range = calculate_projection_range p game_logs edges;
          projected_low = fst range;
          projected_high = snd range;
          direction = determine_direction p projected_low projected_high;
          edge_strength =
            (if edges \<noteq> [] then sum_list (map edge_strength edges) / real (length edges)
             else 0.0)
      in (ps',
          \<lparr>pa_prop = p, pa_player = pl, pa_opponent = opponent, pa_game = g,
           pa_edges = edges, pa_player_game_logs = game_logs, pa_schedule = schedule,
           pa_projected_low = projected_low, pa_projected_high = projected_high,
           pa_projected_mid = (projected_low + projected_high) / 2,
           pa_direction = direction, pa_confidence_score = 0.0,
           pa_minutes_security_score = 0.0, pa_edge_strength_score = edge_strength,
           pa_risk_notes = []\<rparr>))"

text \<open>The body of the loop over the props of a player of the team.\<close>

definition analyse_prop ::
  "env \<Rightarrow> edge list \<Rightarrow> game \<Rightarrow> string \<Rightarrow> nat \<Rightarrow> prop_bet list \<times> prop_analysis list
     \<Rightarrow> prop_bet list \<times> prop_analysis list" where
  "analyse_prop ev team_edges g opponent_abbr i st =
     (let matching_edges = find_edges_for_prop (fst st ! i) team_edges
      in if matching_edges = [] then st
         else (let r = create_prop_analysis ev (fst st) i matching_edges g opponent_abbr
               in (fst r, snd st @ [snd r])))"

text \<open>The body of the loop over the teams that have edges.\<close>

definition analyse_team ::
  "env \<Rightarrow> game list \<Rightarrow> (string \<times> nat list) list \<Rightarrow> string option \<times> edge list
     \<Rightarrow> prop_bet list \<times> prop_analysis list \<Rightarrow> prop_bet list \<times> prop_analysis list" where
  "analyse_team ev games props_by_player team st =
     (case find_game_for_team (fst team) games of
        None \<Rightarrow> st
      | Some g \<Rightarrow>
          (let opponent_abbr = (if Some (game_home_team_abbr g) = fst team
                                then game_away_team_abbr g else game_home_team_abbr g);
               team_players_with_props =
                 filter (\<lambda>pp. list_ex (\<lambda>i. Some (prop_team_abbr (fst st ! i)) = fst team)
                                 (snd pp))
                   props_by_player
           in fold (\<lambda>pp. fold (analyse_prop ev (snd team) g opponent_abbr) (snd pp))
                team_players_with_props st))"

definition match_edges_to_props :: "env \<Rightarrow> heap \<Rightarrow> game list \<Rightarrow> prop_analysis list \<times> heap" where
  "match_edges_to_props ev h games =
     (let name_to_team = player_name_to_team (league_stats ev);
          edges_by_team = group_edges_by_team (heap_edges h);
          grouped = group_props_by_player name_to_team (heap_props h);
          r = fold (analyse_team ev games (snd grouped)) edges_by_team (fst grouped, [])
      in (snd r, h\<lparr>heap_props := fst r\<rparr>))"

section \<open>Minutes gate (analysis/validation/minutes\_gate.py)\<close>

definition minutes_trend_note :: "player_game_log list \<Rightarrow> risk_note list" where
  "minutes_trend_note logs =
     (if length logs \<ge> 10 then
        (let recent_5 = sum_list (map log_minutes (py_slice_to 5 logs)) / 5;
             previous_5 = sum_list (map log_minutes (drop 5 (py_slice_to 10 logs))) / 5
         in if recent_5 < previous_5 - 5 then [Minutes_trending_down previous_5 recent_5]
            else [])
      else [])"

text \<open>
  \<open>validate_minutes_security\<close> returns its verdict and leaves its risk notes on the
  analysis. The division by \<open>len(recent_logs)\<close> raises when the configured number of
  games leaves an empty window.
\<close>

definition validate_minutes_security ::
  "settings \<Rightarrow> prop_analysis \<Rightarrow> py_error + bool \<times> prop_analysis" where
  "validate_minutes_security cfg a =
     (let logs = pa_player_game_logs a
      in if logs = [] then Inr (False, a)
         else if int (length logs) < min_minutes_last_n cfg then Inr (False, a)
         else
           (let recent_logs = py_slice_to (min_minutes_last_n cfg) logs
            in if recent_logs = [] then Inl ZeroDivisionError
               else
                 (let minutes_list = map log_minutes recent_logs;
                      avg_minutes = sum_list minutes_list / real (length recent_logs)
                  in if avg_minutes < min_minutes_threshold cfg then Inr (False, a)
                     else if length minutes_list > 1 \<and> stdev minutes_list > 7.0
                       then Inr (False, a)
                     else if length (filter (\<lambda>g. log_minutes g = 0) recent_logs) > 0
                       then Inr (False, a)
                     else
                       (let min_minutes = Min (set minutes_list);
                            notes1 = (if min_minutes < 15 \<and> avg_minutes > 25
                                      then [Low_min_game min_minutes avg_minutes] else [])
                        in Inr (True, a\<lparr>pa_risk_notes :=
                             pa_risk_notes a @ notes1 @ minutes_trend_note logs\<rparr>)))))"

definition calculate_minutes_security_score :: "settings \<Rightarrow> prop_analysis \<Rightarrow> real" where
  "calculate_minutes_security_score cfg a =
     (let logs = pa_player_game_logs a
      in if logs = [] \<or> length logs < 3 then 0.0
         else
           (let recent_logs = py_slice_to (min 10 (int (length logs))) logs;
                score0 = 0.5;
                avg_minutes = sum_list (map log_minutes recent_logs) / real (length recent_logs);
                score1 = (if avg_minutes \<ge> 35 then score0 + 0.2
                          else if avg_minutes \<ge> 30 then score0 + 0.15
                          else if avg_minutes \<ge> 28 then score0 + 0.1
                          else if avg_minutes \<ge> min_minutes_threshold cfg then score0 + 0.05
                          else score0 - 0.1);
                minutes_list = map log_minutes recent_logs;
                score2 = (if length minutes_list > 1 then
                            (let std_dev = stdev minutes_list
                             in if std_dev < 3 then score1 + 0.2
                                else if std_dev < 5 then score1 + 0.1
                                else if std_dev > 8 then score1 - 0.1
                                else score1)
                          else score1);
                starts = length (filter log_started recent_logs);
                start_rate = real starts / real (length recent_logs);
                score3 = (if start_rate \<ge> 0.8 then score2 + 0.1
                          else if start_rate \<ge> 0.5 then score2 + 0.05
                          else if start_rate = 0 then score2 - 0.05
                          else score2);
                dnps = length (filter (\<lambda>g. log_minutes g = 0) recent_logs);
                score4 = (if dnps = 0 then score3 + 0.05 else score3 - 0.1 * real dnps)
            in max 0.0 (min 1.0 score4)))"

section \<open>Ranking and diversification (output/ranker.py, main.py)\<close>

definition select_top_picks ::
  "settings \<Rightarrow> prop_analysis list \<Rightarrow> int option \<Rightarrow> prop_analysis list" where
  "select_top_picks cfg analyses max_picks_arg =
     (let n = (case max_picks_arg of None \<Rightarrow> max_picks cfg | Some m \<Rightarrow> m);
          quality_threshold = 0.4;
          quality_picks = filter (\<lambda>a. pa_confidence_score a \<ge> quality_threshold) analyses
      in py_slice_to n quality_picks)"

text \<open>One round of the loop of \<open>diversify_picks\<close>, on the picks and the two counters.\<close>

definition diversify_step ::
  "int \<Rightarrow> int \<Rightarrow> prop_analysis
     \<Rightarrow> prop_analysis list \<times> (string \<rightharpoonup> int) \<times> (string \<rightharpoonup> int)
     \<Rightarrow> prop_analysis list \<times> (string \<rightharpoonup> int) \<times> (string \<rightharpoonup> int)" where
  "diversify_step max_per_player max_per_game a st =
     (let selected = fst st; player_counts = fst (snd st); game_counts = snd (snd st);
          pl = player_name (pa_player a);
          gm = game_id (pa_game a)
      in if dict_get player_counts pl 0 \<ge> max_per_player then st
         else if dict_get game_counts gm 0 \<ge> max_per_game then st
         else (selected @ [a],
               player_counts(pl \<mapsto> dict_get player_counts pl 0 + 1),
               game_counts(gm \<mapsto> dict_get game_counts gm 0 + 1)))"

definition diversify_picks :: "prop_analysis list \<Rightarrow> int \<Rightarrow> int \<Rightarrow> prop_analysis list" where
  "diversify_picks analyses max_per_player max_per_game =
     fst (fold (diversify_step max_per_player max_per_game) analyses
            ([], Map.empty, Map.empty))"

text \<open>
  The selection of \<open>run_analysis\<close> (main.py): the ranked analyses are diversified with the
  default caps, then cut to the configured number of picks.
\<close>

definition run_analysis_selection :: "settings \<Rightarrow> prop_analysis list \<Rightarrow> prop_analysis list" where
  "run_analysis_selection cfg ranked_analyses =
     (let diversified = diversify_picks ranked_analyses 1 2
      in select_top_picks cfg diversified (Some (max_picks cfg)))"

section \<open>Reference definitions for the properties\<close>

text \<open>
  The compound categories and their components, and the match of an edge with a category:
  the edge affects the category itself or one of its components.
\<close>

definition category_components :: "string \<Rightarrow> string list" where
  "category_components c =
     (if c = ''pts_rebs_asts'' then [''points'', ''rebounds'', ''assists'']
      else if c = ''pts_asts'' then [''points'', ''assists'']
      else if c = ''pts_rebs'' then [''points'', ''rebounds'']
      else if c = ''rebs_asts'' then [''rebounds'', ''assists'']
      else [])"

definition edge_matches_category :: "edge \<Rightarrow> string \<Rightarrow> bool" where
  "edge_matches_category e c \<longleftrightarrow>
     set (edge_affected_stats e) \<inter> set (c # category_components c) \<noteq> {}"

text \<open>The direction stored on an analysis is the one computed from its stored range.\<close>

definition direction_ok :: "prop_analysis \<Rightarrow> bool" where
  "direction_ok a \<longleftrightarrow>
     pa_direction a =
       determine_direction (pa_prop a) (pa_projected_low a) (pa_projected_high a)"

text \<open>
  What the engine may change on a prop: the team of a prop whose team was \<open>UNK\<close>, to the
  team of the league lookup, and the player id of a prop whose id was 0, to an id that the
  static list of players gives for the name.
\<close>

definition prop_frame :: "env \<Rightarrow> prop_bet \<Rightarrow> prop_bet \<Rightarrow> bool" where
  "prop_frame ev p p' \<longleftrightarrow>
     p' = p\<lparr>prop_team_abbr := prop_team_abbr p', prop_player_id := prop_player_id p'\<rparr>
     \<and> (prop_team_abbr p' \<noteq> prop_team_abbr p \<longrightarrow>
          prop_team_abbr p = ''UNK''
          \<and> player_name_to_team (league_stats ev) (prop_player_name p)
              = Some (prop_team_abbr p'))
     \<and> (prop_player_id p' \<noteq> prop_player_id p \<longrightarrow>
          prop_player_id p = 0
          \<and> (prop_player_name p, prop_player_id p') \<in> set (static_players ev))"

definition props_frame :: "env \<Rightarrow> prop_bet list \<Rightarrow> prop_bet list \<Rightarrow> bool" where
  "props_frame ev ps ps' \<longleftrightarrow>
     length ps' = length ps \<and> (\<forall>i<length ps. prop_frame ev (ps ! i) (ps' ! i))"

text \<open>A small slate: one game, one edge for Boston, one prop with unknown team and id.\<close>

definition example_game :: game where
  "example_game = \<lparr>game_id = ''G1'', game_home_team_id = 1610612738,
     game_away_team_id = 1610612747, game_home_team_abbr = ''BOS'',
     game_away_team_abbr = ''LAL'', game_spread = None\<rparr>"

definition example_edge :: edge where
  "example_edge = \<lparr>edge_type = ''scheme'', edge_description = ''weak defence'',
     edge_affected_stats = [''assists''], edge_strength = 0.7, edge_supporting_data = [],
     edge_benefiting_player_ids = [], edge_game_id = Some ''G1'',
     edge_team_abbr = Some ''BOS'', edge_is_primary = True\<rparr>"

definition example_prop :: prop_bet where
  "example_prop = \<lparr>prop_player_id = 0, prop_player_name = ''A Player'',
     prop_team_abbr = ''UNK'', prop_game_id = ''G1'', prop_opponent_abbr = ''LAL'',
     prop_type = ''pts_asts'', prop_line = 24.5, prop_over_odds = - 110,
     prop_under_odds = - 110, prop_book = ''FanDuel'', prop_is_home = True\<rparr>"

definition example_env :: env where
  "example_env = \<lparr>league_stats = [(''A Player'', ''BOS'')],
     static_players = [(''A Player'', 77)], get_player_game_logs = (\<lambda>_. []),
     get_team_defensive_stats = (\<lambda>_. None), get_schedule_context = (\<lambda>_ _. None)\<rparr>"

definition example_heap :: heap where
  "example_heap = \<lparr>heap_props = [example_prop], heap_edges = [example_edge]\<rparr>"

definition example_analysis :: prop_analysis where
  "example_analysis =
     \<lparr>pa_prop = example_prop\<lparr>prop_team_abbr := ''BOS'', prop_player_id := 77\<rparr>,
      pa_player = \<lparr>player_id = 77, player_name = ''A Player'', player_team_id = 0,
        player_team_abbr = ''BOS'', player_position = ''''\<rparr>,
      pa_opponent = \<lparr>team_id = 1610612747, team_abbr = ''LAL'', team_name = ''LAL'',
        team_opp_ppg = 0, team_opp_rpg = 0, team_opp_apg = 0, team_def_rank_pts = 15,
        team_def_rank_reb = 15, team_def_rank_ast = 15\<rparr>,
      pa_game = example_game, pa_edges = [example_edge], pa_player_game_logs = [],
      pa_schedule = None, pa_projected_low = 22.5, pa_projected_high = 26.5,
      pa_projected_mid = 24.5, pa_direction = ''under'', pa_confidence_score = 0,
      pa_minutes_security_score = 0, pa_edge_strength_score = 0.7, pa_risk_notes = []\<rparr>"

text \<open>
  The four fatal conditions of the minutes gate on the recent window: too few games, an
  average below the floor, a standard deviation above 7.0 (of at least two games), and a
  game with zero minutes.
\<close>

definition fatal_minutes_condition :: "settings \<Rightarrow> player_game_log list \<Rightarrow> bool" where
  "fatal_minutes_condition cfg logs \<longleftrightarrow>
     (let mins = map log_minutes (take (nat (min_minutes_last_n cfg)) logs)
      in int (length logs) < min_minutes_last_n cfg
         \<or> sum_list mins / real (length mins) < min_minutes_threshold cfg
         \<or> (length mins > 1 \<and> stdev mins > 7.0)
         \<or> 0 \<in> set mins)"

text \<open>A game log with the given minutes, and the analysis of the example with such logs.\<close>

definition example_log :: "real \<Rightarrow> player_game_log" where
  "example_log m =
     \<lparr>log_player_id = 77, log_game_id = ''G0'', log_opponent_id = 1610612747,
      log_opponent_abbr = ''LAL'', log_is_home = True, log_minutes = m, log_points = 20,
      log_rebounds = 5, log_assists = 5, log_fg3m = 2, log_fgm = 8, log_fga = 16,
      log_ftm = 2, log_fta = 2, log_steals = 1, log_blocks = 0, log_turnovers = 2,
      log_started = True, log_plus_minus = 0, log_team_won = True\<rparr>"

definition analysis_with_minutes :: "real list \<Rightarrow> prop_analysis" where
  "analysis_with_minutes ms = example_analysis\<lparr>pa_player_game_logs := map example_log ms\<rparr>"

text \<open>
  Diversification as the specification words it: one pass over the ranked list that skips
  an analysis whose player or whose game has reached its cap among the analyses admitted
  so far, and admits every other analysis at the end of the admitted list.
\<close>

fun greedy_pass ::
  "int \<Rightarrow> int \<Rightarrow> prop_analysis list \<Rightarrow> prop_analysis list \<Rightarrow> prop_analysis list" where
  "greedy_pass max_per_player max_per_game admitted [] = admitted"
| "greedy_pass max_per_player max_per_game admitted (a # rest) =
     (if int (length (filter (\<lambda>b. player_name (pa_player b) = player_name (pa_player a))
                        admitted)) \<ge> max_per_player
         \<or> int (length (filter (\<lambda>b. game_id (pa_game b) = game_id (pa_game a))
                           admitted)) \<ge> max_per_game
      then greedy_pass max_per_player max_per_game admitted rest
      else greedy_pass max_per_player max_per_game (admitted @ [a]) rest)"

text \<open>The analysis of the example for another player, game and confidence score.\<close>

definition pick :: "string \<Rightarrow> string \<Rightarrow> real \<Rightarrow> prop_analysis" where
  "pick name gid conf =
     example_analysis
       \<lparr>pa_player := (pa_player example_analysis)\<lparr>player_name := name\<rparr>,
        pa_game := (pa_game example_analysis)\<lparr>game_id := gid\<rparr>,
        pa_confidence_score := conf\<rparr>"

text \<open>
  The invariant of the loop of \<open>diversify_picks\<close>: the two counters hold the numbers of
  admitted analyses of each player and of each game.
\<close>

definition counts_agree ::
  "prop_analysis list \<times> (string \<rightharpoonup> int) \<times> (string \<rightharpoonup> int) \<Rightarrow> bool" where
  "counts_agree st \<longleftrightarrow>
     (\<forall>p. dict_get (fst (snd st)) p 0
            = int (length (filter (\<lambda>b. player_name (pa_player b) = p) (fst st))))
     \<and> (\<forall>g. dict_get (snd (snd st)) g 0
            = int (length (filter (\<lambda>b. game_id (pa_game b) = g) (fst st))))"

text \<open>
  The parts of the projection as the specification words them: the edge adjustment as a
  clamped sum, and the baseline weighted 0.5, 0.3 and 0.2 over the last 5 games, the last
  10 games and the whole history.
\<close>

definition edge_adjustment_sum :: "edge list \<Rightarrow> real" where
  "edge_adjustment_sum edges =
     min (max (\<Sum>e\<leftarrow>edges. if edge_strength e > 0.5 then (edge_strength e - 0.5) * 2 else 0)
            (- 2)) 4"

definition weighted_baseline :: "prop_bet \<Rightarrow> player_game_log list \<Rightarrow> real" where
  "weighted_baseline p logs =
     0.5 * average (stat_column (prop_type p) (take 5 logs))
     + 0.3 * average (stat_column (prop_type p) (take 10 logs))
     + 0.2 * average (stat_column (prop_type p) logs)"

text \<open>
  The range of claim C6 as it is stated: the standard deviation of the trailing ten games
  whenever they give two data points or more, 2.0 otherwise.
\<close>

definition claimed_projection_range ::
  "prop_bet \<Rightarrow> player_game_log list \<Rightarrow> edge list \<Rightarrow> real \<times> real" where
  "claimed_projection_range p logs edges =
     (if logs = [] then (prop_line p - 2, prop_line p + 2)
      else
        (let vals = get_stat_values (take 10 logs) (prop_type p);
             sd = (if length vals < 2 then 2.0 else stdev vals);
             mid = weighted_baseline p logs + edge_adjustment_sum edges
         in (mid - sd, mid + sd)))"

text \<open>A game log with the given points, and a points prop with the line at 20.\<close>

definition points_log :: "int \<Rightarrow> player_game_log" where
  "points_log n = (example_log 30)\<lparr>log_points := n\<rparr>"

definition points_prop :: prop_bet where
  "points_prop = example_prop\<lparr>prop_type := ''points'', prop_line := 20\<rparr>"

text \<open>Team statistics with Boston at a pace of 115 and Los Angeles at 100.\<close>

definition example_team_stats :: "(int \<times> real option) list" where
  "example_team_stats = [(1610612738, Some 115.0), (1610612747, Some 100.0)]"

text \<open>
  The backfill of an unknown team from the league lookup, the props of the store after
  it, and the edges of a team.
\<close>

definition backfill_team :: "(string \<rightharpoonup> string) \<Rightarrow> prop_bet \<Rightarrow> prop_bet" where
  "backfill_team name_to_team p =
     (if prop_team_abbr p = ''UNK'' then
        (case name_to_team (prop_player_name p) of
           Some t \<Rightarrow> p\<lparr>prop_team_abbr := t\<rparr>
         | None \<Rightarrow> p)
      else p)"

definition backfilled_props :: "env \<Rightarrow> heap \<Rightarrow> prop_bet list" where
  "backfilled_props ev h =
     map (backfill_team (player_name_to_team (league_stats ev))) (heap_props h)"

definition team_edges_of :: "heap \<Rightarrow> string option \<Rightarrow> edge list" where
  "team_edges_of h t = filter (\<lambda>e. edge_team_abbr e = t) (heap_edges h)"

text \<open>
  The conditions under which the engine reaches prop \<open>i\<close> for team \<open>t\<close> and finds an
  edge for it: the team plays in one of the games, the player of the prop has a prop of
  that team, and an edge of the team matches the category of the prop. An analysis for
  prop \<open>i\<close> and team \<open>t\<close> is one of that prop (with whatever player id), with the game of
  the team and the matching edges of the team.
\<close>

definition prop_reached :: "env \<Rightarrow> heap \<Rightarrow> game list \<Rightarrow> string option \<Rightarrow> nat \<Rightarrow> bool" where
  "prop_reached ev h games t i \<longleftrightarrow>
     i < length (heap_props h)
     \<and> find_game_for_team t games \<noteq> None
     \<and> (\<exists>j<length (heap_props h).
           prop_player_name (heap_props h ! j) = prop_player_name (heap_props h ! i)
           \<and> Some (prop_team_abbr (backfilled_props ev h ! j)) = t)
     \<and> (\<exists>e\<in>set (team_edges_of h t). edge_matches_category e (prop_type (heap_props h ! i)))"

definition analysis_for ::
  "env \<Rightarrow> heap \<Rightarrow> game list \<Rightarrow> string option \<Rightarrow> nat \<Rightarrow> prop_analysis \<Rightarrow> bool" where
  "analysis_for ev h games t i a \<longleftrightarrow>
     pa_prop a = (backfilled_props ev h ! i)\<lparr>prop_player_id := prop_player_id (pa_prop a)\<rparr>
     \<and> pa_edges a = find_edges_for_prop (heap_props h ! i) (team_edges_of h t)
     \<and> find_game_for_team t games = Some (pa_game a)"

text \<open>
  The invariant of the loops of the engine after the props are grouped: the store differs
  from the backfilled props in player ids only, and the analyses collected so far are those
  of the rounds \<open>(es, g, i)\<close> done so far (edges of the team, game, index of the prop) in
  which an edge matched.
\<close>

definition only_ids_differ :: "prop_bet list \<Rightarrow> prop_bet list \<Rightarrow> bool" where
  "only_ids_differ ps1 ps \<longleftrightarrow>
     length ps = length ps1
     \<and> (\<forall>i<length ps1. ps ! i = (ps1 ! i)\<lparr>prop_player_id := prop_player_id (ps ! i)\<rparr>)"

definition analysis_tag :: "prop_bet list \<Rightarrow> edge list \<Rightarrow> game \<Rightarrow> nat \<Rightarrow> prop_analysis \<Rightarrow> bool" where
  "analysis_tag ps1 es g i a \<longleftrightarrow>
     pa_prop a = (ps1 ! i)\<lparr>prop_player_id := prop_player_id (pa_prop a)\<rparr>
     \<and> pa_edges a = find_edges_for_prop (ps1 ! i) es
     \<and> pa_game a = g"

definition engine_inv ::
  "prop_bet list \<Rightarrow> (edge list \<times> game \<times> nat) set \<Rightarrow> prop_bet list \<times> prop_analysis list
     \<Rightarrow> bool" where
  "engine_inv ps1 S st \<longleftrightarrow>
     only_ids_differ ps1 (fst st)
     \<and> (\<forall>a\<in>set (snd st). \<exists>es g i. (es, g, i) \<in> S
            \<and> find_edges_for_prop (ps1 ! i) es \<noteq> [] \<and> analysis_tag ps1 es g i a)
     \<and> (\<forall>es g i. (es, g, i) \<in> S \<and> find_edges_for_prop (ps1 ! i) es \<noteq> [] \<longrightarrow>
            (\<exists>a\<in>set (snd st). analysis_tag ps1 es g i a))"

definition team_triples ::
  "prop_bet list \<Rightarrow> game list \<Rightarrow> (string \<times> nat list) list \<Rightarrow> string option \<times> edge list
     \<Rightarrow> (edge list \<times> game \<times> nat) set" where
  "team_triples ps1 games pbp team =
     (case find_game_for_team (fst team) games of
        None \<Rightarrow> {}
      | Some g \<Rightarrow>
          {(snd team, g, i) | i. \<exists>pp\<in>set pbp. i \<in> set (snd pp)
             \<and> (\<exists>j\<in>set (snd pp). Some (prop_team_abbr (ps1 ! j)) = fst team)})"

section \<open>Properties\<close>

subsection \<open>Injury edge strength\<close>

lemma injury_edge_strength_bounds:
  "0.3 \<le> calculate_injury_edge_strength ij \<and> calculate_injury_edge_strength ij \<le> 1"
  by (simp add: calculate_injury_edge_strength_def Let_def)

lemma teammate_out_strength_bounds:
  "0.2 \<le> calculate_teammate_out_strength ij \<and> calculate_teammate_out_strength ij \<le> 0.8"
  by (simp add: calculate_teammate_out_strength_def Let_def)

text \<open>
  Claim C7. An injury with usage rate 28, 33 minutes per game and status \<open>out\<close> has the
  opponent-benefit strength 0.3 + 0.2 + 0.1 + 0.1 = 0.7: the base, the usage tier from 25,
  the minutes tier from 30 and the bonus of a confirmed absence, below the cap of 1.0.
\<close>

theorem injury_strength_example:
  assumes "inj_usage_rate ij = 28" and "inj_minutes_per_game ij = 33"
    and "inj_status ij = ''out''"
  shows "calculate_injury_edge_strength ij = 0.3 + 0.2 + 0.1 + 0.1
    \<and> calculate_injury_edge_strength ij = 0.7"
  using assms by (simp add: calculate_injury_edge_strength_def Let_def)

theorem injury_strength_example_witness:
  "calculate_injury_edge_strength
     \<lparr>inj_player_id = 7, inj_player_name = ''A'', inj_team_id = 1, inj_team_abbr = ''BOS'',
      inj_status = ''out'', inj_injury_type = ''knee'', inj_usage_rate = 28,
      inj_minutes_per_game = 33, inj_notes = ''''\<rparr> = 0.7"
  using injury_strength_example
    [of "\<lparr>inj_player_id = 7, inj_player_name = ''A'', inj_team_id = 1, inj_team_abbr = ''BOS'',
      inj_status = ''out'', inj_injury_type = ''knee'', inj_usage_rate = 28,
      inj_minutes_per_game = 33, inj_notes = ''''\<rparr>"]
  by simp

subsection \<open>The slate of the example, evaluated\<close>

lemma ex_grouped: "group_props_by_player (player_name_to_team (league_stats example_env)) [example_prop]
  = ([example_prop\<lparr>prop_team_abbr := ''BOS''\<rparr>], [(''A Player'', [0])])"
  by (simp add: group_props_by_player_def group_prop_step_def player_name_to_team_def example_env_def example_prop_def Let_def)

lemma ex_edges: "group_edges_by_team [example_edge] = [(Some ''BOS'', [example_edge])]"
  by (simp add: group_edges_by_team_def example_edge_def)

lemma ex_find_game: "find_game_for_team (Some ''BOS'') [example_game] = Some example_game"
  by (simp add: find_game_for_team_def example_game_def)

lemma ex_find_edges: "find_edges_for_prop (example_prop\<lparr>prop_team_abbr := ''BOS''\<rparr>) [example_edge] = [example_edge]"
  by (simp add: find_edges_for_prop_def edge_step_def append_if_new_def affects_any_def Let_def example_prop_def example_edge_def)

lemma ex_team_id: "get_team_id ''LAL'' = Some 1610612747"
  by (simp add: get_team_id_def TEAM_IDS_def)

lemma ex_create: "create_prop_analysis example_env [example_prop\<lparr>prop_team_abbr := ''BOS''\<rparr>] 0
    [example_edge] example_game ''LAL''
  = ([example_prop\<lparr>prop_team_abbr := ''BOS'', prop_player_id := 77\<rparr>], example_analysis)"
  by (simp add: create_prop_analysis_def ex_team_id lookup_player_id_def
      calculate_projection_range_def determine_direction_def example_analysis_def Let_def
      example_env_def example_prop_def example_edge_def)

lemma ex_game_fields:
  "game_home_team_abbr example_game = ''BOS''" "game_away_team_abbr example_game = ''LAL''"
  by (simp_all add: example_game_def)

lemma match_example:
  "match_edges_to_props example_env example_heap [example_game]
     = ([example_analysis],
        \<lparr>heap_props = [example_prop\<lparr>prop_team_abbr := ''BOS'', prop_player_id := 77\<rparr>],
         heap_edges = [example_edge]\<rparr>)"
  by (simp add: match_edges_to_props_def example_heap_def ex_grouped ex_edges analyse_team_def
      ex_find_game analyse_prop_def ex_find_edges ex_create ex_game_fields Let_def)


subsection \<open>Direction of an analysis\<close>

lemma determine_direction_over:
  "determine_direction p lo hi = ''over'' \<longleftrightarrow> (lo + hi) / 2 > prop_line p"
  by (simp add: determine_direction_def Let_def)

lemma determine_direction_under:
  "determine_direction p lo hi = ''under'' \<longleftrightarrow> \<not> (lo + hi) / 2 > prop_line p"
  by (simp add: determine_direction_def Let_def)

lemma create_direction_ok: "direction_ok (snd (create_prop_analysis ev ps i es g opp))"
  by (simp add: create_prop_analysis_def direction_ok_def Let_def)

lemma analyse_prop_direction:
  "\<forall>a\<in>set (snd st). direction_ok a \<Longrightarrow>
   \<forall>a\<in>set (snd (analyse_prop ev es g opp i st)). direction_ok a"
  by (auto simp: analyse_prop_def Let_def create_direction_ok)

lemma fold_analyse_prop_direction:
  "\<forall>a\<in>set (snd st). direction_ok a \<Longrightarrow>
   \<forall>a\<in>set (snd (fold (analyse_prop ev es g opp) idxs st)). direction_ok a"
proof (induction idxs arbitrary: st)
  case Nil then show ?case by simp
next
  case (Cons i idxs)
  show ?case using Cons.IH[OF analyse_prop_direction[OF Cons.prems]] by simp
qed

lemma fold_players_direction:
  "\<forall>a\<in>set (snd st). direction_ok a \<Longrightarrow>
   \<forall>a\<in>set (snd (fold (\<lambda>pp. fold (analyse_prop ev es g opp) (snd pp)) pps st)). direction_ok a"
proof (induction pps arbitrary: st)
  case Nil then show ?case by simp
next
  case (Cons pp pps)
  show ?case using Cons.IH[OF fold_analyse_prop_direction[OF Cons.prems]] by simp
qed

lemma analyse_team_direction:
  "\<forall>a\<in>set (snd st). direction_ok a \<Longrightarrow>
   \<forall>a\<in>set (snd (analyse_team ev games pbp t st)). direction_ok a"
  unfolding analyse_team_def Let_def
  by (cases "find_game_for_team (fst t) games") (simp_all add: fold_players_direction)

lemma fold_teams_direction:
  "\<forall>a\<in>set (snd st). direction_ok a \<Longrightarrow>
   \<forall>a\<in>set (snd (fold (analyse_team ev games pbp) ts st)). direction_ok a"
proof (induction ts arbitrary: st)
  case Nil then show ?case by simp
next
  case (Cons t ts)
  show ?case using Cons.IH[OF analyse_team_direction[OF Cons.prems]] by simp
qed

lemma match_direction_ok:
  "\<forall>a\<in>set (fst (match_edges_to_props ev h games)). direction_ok a"
  unfolding match_edges_to_props_def Let_def
  by (simp only: fst_conv) (rule fold_teams_direction, simp)

text \<open>
  Claim C1. For every analysis that the matchup engine returns, the direction is \<open>over\<close>
  exactly when the midpoint of the projected range is above the line of the prop, and
  \<open>under\<close> otherwise, also when the midpoint equals the line.
\<close>

theorem direction_is_midpoint_vs_line:
  assumes "a \<in> set (fst (match_edges_to_props ev h games))"
  shows "(pa_direction a = ''over'' \<longleftrightarrow>
            (pa_projected_low a + pa_projected_high a) / 2 > prop_line (pa_prop a))
       \<and> (pa_direction a = ''under'' \<longleftrightarrow>
            \<not> (pa_projected_low a + pa_projected_high a) / 2 > prop_line (pa_prop a))"
  using match_direction_ok assms
  by (auto simp: direction_ok_def determine_direction_over determine_direction_under)

theorem direction_is_midpoint_vs_line_witness:
  "example_analysis \<in> set (fst (match_edges_to_props example_env example_heap [example_game]))
   \<and> pa_direction example_analysis = ''under''
   \<and> (pa_projected_low example_analysis + pa_projected_high example_analysis) / 2
       = prop_line (pa_prop example_analysis)"
  using direction_is_midpoint_vs_line
    [of example_analysis example_env example_heap "[example_game]"]
  by (simp add: match_example) (simp add: example_analysis_def example_prop_def)

subsection \<open>Edges matched to a prop\<close>

lemma affects_any_iff: "affects_any e stats \<longleftrightarrow> set (edge_affected_stats e) \<inter> set stats \<noteq> {}"
  by (auto simp: affects_any_def list_ex_iff)

lemma set_append_if_new: "set (append_if_new e m) = insert e (set m)"
  by (auto simp: append_if_new_def)

lemma set_edge_step:
  "set (edge_step c e m) = set m \<union> (if edge_matches_category e c then {e} else {})"
proof -
  consider (pra) "c = ''pts_rebs_asts''" | (pa) "c = ''pts_asts''" | (pr) "c = ''pts_rebs''"
    | (ra) "c = ''rebs_asts''"
    | (simple) "c \<noteq> ''pts_rebs_asts''" "c \<noteq> ''pts_asts''" "c \<noteq> ''pts_rebs''"
        "c \<noteq> ''rebs_asts''"
    by blast
  then show ?thesis
  proof cases
    case pra
    have "category_components c = [''points'', ''rebounds'', ''assists'']"
      by (simp add: category_components_def pra)
    then show ?thesis
      by (auto simp: edge_step_def Let_def pra set_append_if_new affects_any_iff
          edge_matches_category_def)
  next
    case pa
    have "category_components c = [''points'', ''assists'']"
      by (simp add: category_components_def pa)
    then show ?thesis
      by (auto simp: edge_step_def Let_def pa set_append_if_new affects_any_iff
          edge_matches_category_def)
  next
    case pr
    have "category_components c = [''points'', ''rebounds'']"
      by (simp add: category_components_def pr)
    then show ?thesis
      by (auto simp: edge_step_def Let_def pr set_append_if_new affects_any_iff
          edge_matches_category_def)
  next
    case ra
    have "category_components c = [''rebounds'', ''assists'']"
      by (simp add: category_components_def ra)
    then show ?thesis
      by (auto simp: edge_step_def Let_def ra set_append_if_new affects_any_iff
          edge_matches_category_def)
  next
    case simple
    have "category_components c = []"
      by (simp add: category_components_def simple)
    then show ?thesis
      by (auto simp: edge_step_def Let_def simple edge_matches_category_def)
  qed
qed

lemma set_fold_edge_step:
  "set (fold (edge_step c) es m) = set m \<union> {e \<in> set es. edge_matches_category e c}"
  by (induction es arbitrary: m) (auto simp: set_edge_step)

lemma set_find_edges_for_prop:
  "set (find_edges_for_prop p es) = {e \<in> set es. edge_matches_category e (prop_type p)}"
  by (simp add: find_edges_for_prop_def set_fold_edge_step)

lemma find_edges_nonempty_iff:
  "find_edges_for_prop p es \<noteq> [] \<longleftrightarrow> (\<exists>e\<in>set es. edge_matches_category e (prop_type p))"
proof -
  have "find_edges_for_prop p es \<noteq> [] \<longleftrightarrow> set (find_edges_for_prop p es) \<noteq> {}" by simp
  then show ?thesis unfolding set_find_edges_for_prop by auto
qed

lemma analyse_prop_produces:
  "snd (analyse_prop ev team_edges g opp i (ps, acc)) =
     (if find_edges_for_prop (ps ! i) team_edges = [] then acc
      else acc @ [snd (create_prop_analysis ev ps i
                         (find_edges_for_prop (ps ! i) team_edges) g opp)])"
  by (simp add: analyse_prop_def Let_def)

lemma create_prop_analysis_edges: "pa_edges (snd (create_prop_analysis ev ps i es g opp)) = es"
  by (simp add: create_prop_analysis_def Let_def)

lemma analyse_prop_iff_matching_edge:
  "(snd (analyse_prop ev team_edges g opp i (ps, acc)) \<noteq> acc \<longleftrightarrow>
      (\<exists>e\<in>set team_edges. edge_matches_category e (prop_type (ps ! i))))"
  unfolding analyse_prop_produces find_edges_nonempty_iff[symmetric] by simp

subsection \<open>The props grouped by player, the edges grouped by team\<close>

lemma dict_append_map_of:
  "map_of (dict_append k v d) =
     (map_of d)(k \<mapsto> (case map_of d k of None \<Rightarrow> [v] | Some vs \<Rightarrow> vs @ [v]))"
  by (induction k v d rule: dict_append.induct) (auto simp: fun_upd_twist)

lemma dict_append_keys:
  "map fst (dict_append k v d) = (if k \<in> fst ` set d then map fst d else map fst d @ [k])"
  by (induction k v d rule: dict_append.induct) auto

lemma dict_append_distinct:
  "distinct (map fst d) \<Longrightarrow> distinct (map fst (dict_append k v d))"
  by (simp add: dict_append_keys)

lemma grouping_fold:
  "distinct (map fst (fold (\<lambda>x. dict_append (key x) x) xs []))
   \<and> (\<forall>k. map_of (fold (\<lambda>x. dict_append (key x) x) xs []) k =
          (if filter (\<lambda>x. key x = k) xs = [] then None
           else Some (filter (\<lambda>x. key x = k) xs)))"
proof (induction xs rule: rev_induct)
  case Nil
  show ?case by simp
next
  case (snoc x xs)
  let ?d = "fold (\<lambda>x. dict_append (key x) x) xs []"
  have d: "distinct (map fst ?d)" using snoc.IH by blast
  have m: "map_of ?d k = (if filter (\<lambda>x. key x = k) xs = [] then None
           else Some (filter (\<lambda>x. key x = k) xs))" for k
    using snoc.IH by blast
  have "distinct (map fst (dict_append (key x) x ?d))" using d by (rule dict_append_distinct)
  moreover have "map_of (dict_append (key x) x ?d) k =
          (if filter (\<lambda>y. key y = k) (xs @ [x]) = [] then None
           else Some (filter (\<lambda>y. key y = k) (xs @ [x])))" for k
    unfolding dict_append_map_of by (simp add: m)
  ultimately show ?case by simp
qed

lemma grouping_mem:
  "(k, vs) \<in> set (fold (\<lambda>x. dict_append (key x) x) xs [])
     \<longleftrightarrow> vs = filter (\<lambda>x. key x = k) xs \<and> vs \<noteq> []"
proof -
  let ?d = "fold (\<lambda>x. dict_append (key x) x) xs []"
  have d: "distinct (map fst ?d)" using grouping_fold[of key xs] by blast
  have "(k, vs) \<in> set ?d \<longleftrightarrow> map_of ?d k = Some vs"
    using d by simp
  also have "\<dots> \<longleftrightarrow> vs = filter (\<lambda>x. key x = k) xs \<and> vs \<noteq> []"
    using grouping_fold[of key xs] by auto
  finally show ?thesis .
qed

lemma group_edges_by_team_mem:
  "(t, es) \<in> set (group_edges_by_team edges)
     \<longleftrightarrow> es = filter (\<lambda>e. edge_team_abbr e = t) edges \<and> es \<noteq> []"
proof -
  have "group_edges_by_team edges = fold (\<lambda>e. dict_append (edge_team_abbr e) e) edges []"
    by (simp add: group_edges_by_team_def)
  then show ?thesis by (simp add: grouping_mem)
qed

lemma group_prop_step_eq:
  "group_prop_step name_to_team i (ps, d) =
     (ps[i := backfill_team name_to_team (ps ! i)],
      dict_append (prop_player_name (ps ! i)) i d)"
  by (simp add: group_prop_step_def backfill_team_def Let_def split: option.splits)

lemma group_props_upto:
  "n \<le> length ps \<Longrightarrow>
   fold (group_prop_step name_to_team) [0..<n] (ps, []) =
     (map (backfill_team name_to_team) (take n ps) @ drop n ps,
      fold (\<lambda>i. dict_append (prop_player_name (ps ! i)) i) [0..<n] [])"
proof (induction n)
  case 0
  show ?case by simp
next
  case (Suc n)
  then have n: "n < length ps" by simp
  let ?psn = "map (backfill_team name_to_team) (take n ps) @ drop n ps"
  have at: "?psn ! n = ps ! n" using n by (simp add: nth_append)
  have dr: "drop n ps = ps ! n # drop (Suc n) ps" using n by (simp add: Cons_nth_drop_Suc)
  have up: "?psn[n := backfill_team name_to_team (ps ! n)]
      = map (backfill_team name_to_team) (take (Suc n) ps) @ drop (Suc n) ps"
    using n by (simp add: dr take_Suc_conv_app_nth list_update_append)
  show ?case
    using Suc.IH n by (simp add: group_prop_step_eq at up)
qed

lemma group_props_by_player_eq:
  "group_props_by_player name_to_team ps =
     (map (backfill_team name_to_team) ps,
      fold (\<lambda>i. dict_append (prop_player_name (ps ! i)) i) [0..<length ps] [])"
  unfolding group_props_by_player_def using group_props_upto[of "length ps" ps name_to_team]
  by simp

lemma props_by_player_mem:
  "(name, idxs) \<in> set (snd (group_props_by_player name_to_team ps))
     \<longleftrightarrow> idxs = filter (\<lambda>i. prop_player_name (ps ! i) = name) [0..<length ps] \<and> idxs \<noteq> []"
  by (simp add: group_props_by_player_eq grouping_mem)

subsection \<open>The analyses that the engine produces\<close>

lemma only_ids_differ_refl: "only_ids_differ ps ps"
  by (simp add: only_ids_differ_def)

lemma only_ids_differ_fields:
  assumes "only_ids_differ ps1 ps" and "i < length ps1"
  shows "prop_type (ps ! i) = prop_type (ps1 ! i)"
    and "prop_team_abbr (ps ! i) = prop_team_abbr (ps1 ! i)"
    and "(ps ! i)\<lparr>prop_player_id := n\<rparr> = (ps1 ! i)\<lparr>prop_player_id := n\<rparr>"
proof -
  have e: "ps ! i = (ps1 ! i)\<lparr>prop_player_id := prop_player_id (ps ! i)\<rparr>"
    using assms by (simp add: only_ids_differ_def)
  show "prop_type (ps ! i) = prop_type (ps1 ! i)" by (subst e) simp
  show "prop_team_abbr (ps ! i) = prop_team_abbr (ps1 ! i)" by (subst e) simp
  show "(ps ! i)\<lparr>prop_player_id := n\<rparr> = (ps1 ! i)\<lparr>prop_player_id := n\<rparr>" by (subst e) simp
qed

lemma only_ids_differ_update:
  assumes "only_ids_differ ps1 ps"
  shows "only_ids_differ ps1 (ps[i := (ps ! i)\<lparr>prop_player_id := n\<rparr>])"
proof -
  have "ps[i := (ps ! i)\<lparr>prop_player_id := n\<rparr>] ! j
      = (ps1 ! j)\<lparr>prop_player_id := prop_player_id (ps[i := (ps ! i)\<lparr>prop_player_id := n\<rparr>] ! j)\<rparr>"
    if j: "j < length ps1" for j
  proof (cases "j = i")
    case True
    have "i < length ps" using j True assms by (simp add: only_ids_differ_def)
    then show ?thesis
      using True only_ids_differ_fields(3)[OF assms j, of n] by simp
  next
    case False
    then show ?thesis using assms j by (simp add: only_ids_differ_def)
  qed
  then show ?thesis using assms by (simp add: only_ids_differ_def)
qed

lemma find_edges_for_prop_type:
  "prop_type p = prop_type q \<Longrightarrow> find_edges_for_prop p es = find_edges_for_prop q es"
  by (simp add: find_edges_for_prop_def)

lemma create_prop_analysis_store:
  "fst (create_prop_analysis ev ps i es g opp) = ps
   \<or> (\<exists>n. fst (create_prop_analysis ev ps i es g opp) = ps[i := (ps ! i)\<lparr>prop_player_id := n\<rparr>])"
  by (auto simp: create_prop_analysis_def Let_def split: option.splits)

lemma create_prop_analysis_game: "pa_game (snd (create_prop_analysis ev ps i es g opp)) = g"
  by (simp add: create_prop_analysis_def Let_def)

lemma create_prop_analysis_prop:
  "pa_prop (snd (create_prop_analysis ev ps i es g opp))
     = (ps ! i)\<lparr>prop_player_id :=
          prop_player_id (pa_prop (snd (create_prop_analysis ev ps i es g opp)))\<rparr>"
  by (auto simp: create_prop_analysis_def Let_def split: option.splits)

lemma create_prop_analysis_ids:
  "only_ids_differ ps1 ps \<Longrightarrow> only_ids_differ ps1 (fst (create_prop_analysis ev ps i es g opp))"
  using create_prop_analysis_store[of ev ps i es g opp] only_ids_differ_update by metis

lemma engine_inv_mono:
  assumes "engine_inv ps1 S st" and "S \<subseteq> S'"
    and "\<And>es g i. (es, g, i) \<in> S' - S \<Longrightarrow> find_edges_for_prop (ps1 ! i) es = []"
  shows "engine_inv ps1 S' st"
  using assms unfolding engine_inv_def by (meson DiffI subsetD)

lemma analyse_prop_inv:
  assumes inv: "engine_inv ps1 S st" and i: "i < length ps1"
  shows "engine_inv ps1 (insert (es, g, i) S) (analyse_prop ev es g opp i st)"
proof -
  have ids: "only_ids_differ ps1 (fst st)" using inv by (simp add: engine_inv_def)
  have fe: "find_edges_for_prop (fst st ! i) es = find_edges_for_prop (ps1 ! i) es"
    using only_ids_differ_fields(1)[OF ids i] by (rule find_edges_for_prop_type)
  show ?thesis
  proof (cases "find_edges_for_prop (ps1 ! i) es = []")
    case True
    have "analyse_prop ev es g opp i st = st"
      by (simp add: analyse_prop_def fe True)
    moreover have "engine_inv ps1 (insert (es, g, i) S) st"
      using inv by (rule engine_inv_mono) (auto simp: True)
    ultimately show ?thesis by simp
  next
    case False
    let ?m = "find_edges_for_prop (ps1 ! i) es"
    let ?r = "create_prop_analysis ev (fst st) i ?m g opp"
    have step: "analyse_prop ev es g opp i st = (fst ?r, snd st @ [snd ?r])"
      by (simp add: analyse_prop_def fe False Let_def)
    have ids': "only_ids_differ ps1 (fst ?r)" using ids by (rule create_prop_analysis_ids)
    have pr: "pa_prop (snd ?r) = (ps1 ! i)\<lparr>prop_player_id := prop_player_id (pa_prop (snd ?r))\<rparr>"
      using create_prop_analysis_prop[of ev "fst st" i ?m g opp]
        only_ids_differ_fields(3)[OF ids i] by simp
    have tag: "analysis_tag ps1 es g i (snd ?r)"
      unfolding analysis_tag_def
      using pr by (simp add: create_prop_analysis_edges create_prop_analysis_game)
    have old: "\<forall>a\<in>set (snd st). \<exists>es g i. (es, g, i) \<in> S
            \<and> find_edges_for_prop (ps1 ! i) es \<noteq> [] \<and> analysis_tag ps1 es g i a"
      and cov: "\<forall>es g i. (es, g, i) \<in> S \<and> find_edges_for_prop (ps1 ! i) es \<noteq> [] \<longrightarrow>
            (\<exists>a\<in>set (snd st). analysis_tag ps1 es g i a)"
      using inv by (simp_all add: engine_inv_def)
    have a: "\<forall>a\<in>set (snd st @ [snd ?r]). \<exists>es' g' i'. (es', g', i') \<in> insert (es, g, i) S
            \<and> find_edges_for_prop (ps1 ! i') es' \<noteq> [] \<and> analysis_tag ps1 es' g' i' a"
    proof
      fix a assume "a \<in> set (snd st @ [snd ?r])"
      then consider "a \<in> set (snd st)" | "a = snd ?r" by auto
      then show "\<exists>es' g' i'. (es', g', i') \<in> insert (es, g, i) S
            \<and> find_edges_for_prop (ps1 ! i') es' \<noteq> [] \<and> analysis_tag ps1 es' g' i' a"
      proof cases
        case 1
        then show ?thesis using old by blast
      next
        case 2
        then show ?thesis using tag False by blast
      qed
    qed
    have b: "\<forall>es' g' i'. (es', g', i') \<in> insert (es, g, i) S
            \<and> find_edges_for_prop (ps1 ! i') es' \<noteq> [] \<longrightarrow>
            (\<exists>a\<in>set (snd st @ [snd ?r]). analysis_tag ps1 es' g' i' a)"
    proof (intro allI impI)
      fix es' g' i'
      assume h: "(es', g', i') \<in> insert (es, g, i) S
            \<and> find_edges_for_prop (ps1 ! i') es' \<noteq> []"
      then consider "(es', g', i') = (es, g, i)" | "(es', g', i') \<in> S" by auto
      then show "\<exists>a\<in>set (snd st @ [snd ?r]). analysis_tag ps1 es' g' i' a"
      proof cases
        case 1
        then show ?thesis using tag by auto
      next
        case 2
        then obtain a where "a \<in> set (snd st)" "analysis_tag ps1 es' g' i' a"
          using cov h by blast
        then show ?thesis by auto
      qed
    qed
    show ?thesis unfolding step engine_inv_def using ids' a b by simp
  qed
qed

lemma fold_analyse_prop_inv:
  assumes "engine_inv ps1 S st" and "\<forall>i\<in>set idxs. i < length ps1"
  shows "engine_inv ps1 (S \<union> (\<lambda>i. (es, g, i)) ` set idxs)
           (fold (analyse_prop ev es g opp) idxs st)"
  using assms
proof (induction idxs arbitrary: S st)
  case Nil
  then show ?case by simp
next
  case (Cons i idxs)
  have 1: "engine_inv ps1 (insert (es, g, i) S) (analyse_prop ev es g opp i st)"
    using Cons.prems by (simp add: analyse_prop_inv)
  have 2: "insert (es, g, i) S \<union> (\<lambda>i. (es, g, i)) ` set idxs
      = S \<union> (\<lambda>i. (es, g, i)) ` set (i # idxs)" by auto
  show ?case using Cons.IH[OF 1] Cons.prems(2) by (simp add: 2[symmetric])
qed

lemma fold_players_inv:
  assumes "engine_inv ps1 S st" and "\<forall>pp\<in>set pps. \<forall>i\<in>set (snd pp). i < length ps1"
  shows "engine_inv ps1 (S \<union> {(es, g, i) | i. \<exists>pp\<in>set pps. i \<in> set (snd pp)})
           (fold (\<lambda>pp. fold (analyse_prop ev es g opp) (snd pp)) pps st)"
  using assms
proof (induction pps arbitrary: S st)
  case Nil
  then show ?case by simp
next
  case (Cons pp pps)
  have 1: "engine_inv ps1 (S \<union> (\<lambda>i. (es, g, i)) ` set (snd pp))
      (fold (analyse_prop ev es g opp) (snd pp) st)"
    using Cons.prems by (simp add: fold_analyse_prop_inv)
  have 2: "S \<union> (\<lambda>i. (es, g, i)) ` set (snd pp) \<union> {(es, g, i) | i. \<exists>pp\<in>set pps. i \<in> set (snd pp)}
      = S \<union> {(es, g, i) | i. \<exists>q\<in>set (pp # pps). i \<in> set (snd q)}" by auto
  have "engine_inv ps1
      (S \<union> (\<lambda>i. (es, g, i)) ` set (snd pp) \<union> {(es, g, i) | i. \<exists>pp\<in>set pps. i \<in> set (snd pp)})
      (fold (\<lambda>pp. fold (analyse_prop ev es g opp) (snd pp)) pps
         (fold (analyse_prop ev es g opp) (snd pp) st))"
    using Cons.IH[OF 1] Cons.prems(2) by simp
  then show ?case unfolding 2 by simp
qed

lemma analyse_team_inv:
  assumes inv: "engine_inv ps1 S st"
    and valid: "\<forall>pp\<in>set pbp. \<forall>i\<in>set (snd pp). i < length ps1"
  shows "engine_inv ps1 (S \<union> team_triples ps1 games pbp team)
           (analyse_team ev games pbp team st)"
proof (cases "find_game_for_team (fst team) games")
  case None
  then show ?thesis using inv by (simp add: analyse_team_def team_triples_def)
next
  case (Some g)
  have ids: "only_ids_differ ps1 (fst st)" using inv by (simp add: engine_inv_def)
  let ?on_team = "\<lambda>pp. list_ex (\<lambda>i. Some (prop_team_abbr (fst st ! i)) = fst team) (snd pp)"
  let ?pps = "filter ?on_team pbp"
  have on: "?on_team pp \<longleftrightarrow> (\<exists>j\<in>set (snd pp). Some (prop_team_abbr (ps1 ! j)) = fst team)"
    if "pp \<in> set pbp" for pp
  proof -
    have "prop_team_abbr (fst st ! j) = prop_team_abbr (ps1 ! j)" if "j \<in> set (snd pp)" for j
      using only_ids_differ_fields(2)[OF ids] valid \<open>pp \<in> set pbp\<close> that by blast
    then show ?thesis by (auto simp: list_ex_iff)
  qed
  have v: "\<forall>pp\<in>set ?pps. \<forall>i\<in>set (snd pp). i < length ps1" using valid by auto
  have mem: "(\<exists>pp\<in>set ?pps. i \<in> set (snd pp)) \<longleftrightarrow>
      (\<exists>pp\<in>set pbp. i \<in> set (snd pp)
         \<and> (\<exists>j\<in>set (snd pp). Some (prop_team_abbr (ps1 ! j)) = fst team))" for i
  proof
    assume "\<exists>pp\<in>set ?pps. i \<in> set (snd pp)"
    then obtain pp where pp: "pp \<in> set pbp" "?on_team pp" "i \<in> set (snd pp)" by auto
    have "\<exists>j\<in>set (snd pp). Some (prop_team_abbr (ps1 ! j)) = fst team"
      using on[OF pp(1)] pp(2) by blast
    then show "\<exists>pp\<in>set pbp. i \<in> set (snd pp)
         \<and> (\<exists>j\<in>set (snd pp). Some (prop_team_abbr (ps1 ! j)) = fst team)"
      using pp(1,3) by blast
  next
    assume "\<exists>pp\<in>set pbp. i \<in> set (snd pp)
         \<and> (\<exists>j\<in>set (snd pp). Some (prop_team_abbr (ps1 ! j)) = fst team)"
    then obtain pp where pp: "pp \<in> set pbp" "i \<in> set (snd pp)"
      "\<exists>j\<in>set (snd pp). Some (prop_team_abbr (ps1 ! j)) = fst team" by blast
    have "?on_team pp" using on[OF pp(1)] pp(3) by blast
    then have "pp \<in> set ?pps" using pp(1) by simp
    then show "\<exists>pp\<in>set ?pps. i \<in> set (snd pp)" using pp(2) by blast
  qed
  have tr: "{(snd team, g, i) | i. \<exists>pp\<in>set ?pps. i \<in> set (snd pp)}
      = team_triples ps1 games pbp team"
    unfolding team_triples_def Some by (simp only: option.case mem)
  have "analyse_team ev games pbp team st =
      fold (\<lambda>pp. fold (analyse_prop ev (snd team) g
               (if Some (game_home_team_abbr g) = fst team
                then game_away_team_abbr g else game_home_team_abbr g)) (snd pp)) ?pps st"
    by (simp add: analyse_team_def Some Let_def)
  then show ?thesis
    using fold_players_inv[OF inv v, of "snd team" g ev] tr by simp
qed

lemma fold_teams_inv:
  assumes "engine_inv ps1 S st"
    and valid: "\<forall>pp\<in>set pbp. \<forall>i\<in>set (snd pp). i < length ps1"
  shows "engine_inv ps1 (S \<union> (\<Union>team\<in>set teams. team_triples ps1 games pbp team))
           (fold (analyse_team ev games pbp) teams st)"
  using assms(1)
proof (induction teams arbitrary: S st)
  case Nil
  then show ?case by simp
next
  case (Cons team teams)
  have 1: "engine_inv ps1 (S \<union> team_triples ps1 games pbp team)
      (analyse_team ev games pbp team st)"
    using Cons.prems valid by (rule analyse_team_inv)
  have 2: "S \<union> team_triples ps1 games pbp team
        \<union> (\<Union>team\<in>set teams. team_triples ps1 games pbp team)
      = S \<union> (\<Union>t\<in>set (team # teams). team_triples ps1 games pbp t)" by auto
  have "engine_inv ps1
      (S \<union> team_triples ps1 games pbp team
        \<union> (\<Union>team\<in>set teams. team_triples ps1 games pbp team))
      (fold (analyse_team ev games pbp) teams (analyse_team ev games pbp team st))"
    using Cons.IH[OF 1] by simp
  then show ?case unfolding 2 by simp
qed

lemma engine_inv_init: "engine_inv ps1 {} (ps1, [])"
  by (simp add: engine_inv_def only_ids_differ_refl)

lemma backfill_team_fields:
  "prop_type (backfill_team m p) = prop_type p"
  "prop_player_name (backfill_team m p) = prop_player_name p"
  by (simp_all add: backfill_team_def split: option.splits)

lemma match_edges_to_props_inv:
  "engine_inv (backfilled_props ev h)
     (\<Union>team\<in>set (group_edges_by_team (heap_edges h)).
        team_triples (backfilled_props ev h) games
          (snd (group_props_by_player (player_name_to_team (league_stats ev)) (heap_props h)))
          team)
     (heap_props (snd (match_edges_to_props ev h games)),
      fst (match_edges_to_props ev h games))"
proof -
  let ?m = "player_name_to_team (league_stats ev)"
  let ?ps1 = "backfilled_props ev h"
  let ?pbp = "snd (group_props_by_player ?m (heap_props h))"
  have f: "fst (group_props_by_player ?m (heap_props h)) = ?ps1"
    by (simp add: group_props_by_player_eq backfilled_props_def)
  have valid: "\<forall>pp\<in>set ?pbp. \<forall>i\<in>set (snd pp). i < length ?ps1"
  proof (intro ballI)
    fix pp i assume pp: "pp \<in> set ?pbp" and i: "i \<in> set (snd pp)"
    have "(fst pp, snd pp) \<in> set ?pbp" using pp by simp
    then have "snd pp = filter (\<lambda>i. prop_player_name (heap_props h ! i) = fst pp)
        [0..<length (heap_props h)]"
      unfolding props_by_player_mem by simp
    then show "i < length ?ps1" using i by (auto simp: backfilled_props_def)
  qed
  let ?r = "fold (analyse_team ev games ?pbp) (group_edges_by_team (heap_edges h)) (?ps1, [])"
  have "engine_inv ?ps1
     ({} \<union> (\<Union>team\<in>set (group_edges_by_team (heap_edges h)).
        team_triples ?ps1 games ?pbp team)) ?r"
    using engine_inv_init valid by (rule fold_teams_inv)
  moreover have "fst (match_edges_to_props ev h games) = snd ?r"
    "heap_props (snd (match_edges_to_props ev h games)) = fst ?r"
    by (simp_all add: match_edges_to_props_def Let_def f)
  ultimately show ?thesis by simp
qed

lemma engine_triples_mem:
  "(es, g, i) \<in> (\<Union>team\<in>set (group_edges_by_team (heap_edges h)).
        team_triples (backfilled_props ev h) games
          (snd (group_props_by_player (player_name_to_team (league_stats ev)) (heap_props h)))
          team)
   \<longleftrightarrow> (\<exists>t. es = team_edges_of h t \<and> es \<noteq> [] \<and> find_game_for_team t games = Some g
          \<and> i < length (heap_props h)
          \<and> (\<exists>j<length (heap_props h).
                prop_player_name (heap_props h ! j) = prop_player_name (heap_props h ! i)
                \<and> Some (prop_team_abbr (backfilled_props ev h ! j)) = t))"
  (is "?L \<longleftrightarrow> ?R")
proof
  let ?pbp = "snd (group_props_by_player (player_name_to_team (league_stats ev)) (heap_props h))"
  let ?n = "length (heap_props h)"
  assume ?L
  then obtain team where team: "team \<in> set (group_edges_by_team (heap_edges h))"
    and tr: "(es, g, i) \<in> team_triples (backfilled_props ev h) games ?pbp team" by blast
  have "(fst team, snd team) \<in> set (group_edges_by_team (heap_edges h))" using team by simp
  then have "snd team = team_edges_of h (fst team) \<and> snd team \<noteq> []"
    unfolding group_edges_by_team_mem team_edges_of_def .
  then have es: "snd team = team_edges_of h (fst team)" "snd team \<noteq> []" by blast+
  from tr obtain g' where g': "find_game_for_team (fst team) games = Some g'"
    by (cases "find_game_for_team (fst team) games") (auto simp: team_triples_def)
  from tr obtain pp j where e: "es = snd team" "g = g'" and pp: "pp \<in> set ?pbp"
    and i: "i \<in> set (snd pp)" and j: "j \<in> set (snd pp)"
    and tj: "Some (prop_team_abbr (backfilled_props ev h ! j)) = fst team"
    unfolding team_triples_def g' option.case by blast
  have "(fst pp, snd pp) \<in> set ?pbp" using pp by simp
  then have idx: "snd pp = filter (\<lambda>k. prop_player_name (heap_props h ! k) = fst pp) [0..<?n]"
    unfolding props_by_player_mem by simp
  have "i < ?n" "prop_player_name (heap_props h ! i) = fst pp"
    "j < ?n" "prop_player_name (heap_props h ! j) = fst pp"
    using i j unfolding idx by auto
  then show ?R using e es g' tj by metis
next
  let ?pbp = "snd (group_props_by_player (player_name_to_team (league_stats ev)) (heap_props h))"
  let ?n = "length (heap_props h)"
  assume ?R
  then obtain t j where es: "es = team_edges_of h t" "es \<noteq> []"
    and g: "find_game_for_team t games = Some g" and i: "i < ?n" and j: "j < ?n"
    and nm: "prop_player_name (heap_props h ! j) = prop_player_name (heap_props h ! i)"
    and tj: "Some (prop_team_abbr (backfilled_props ev h ! j)) = t" by blast
  have team: "(t, es) \<in> set (group_edges_by_team (heap_edges h))"
    unfolding group_edges_by_team_mem using es by (simp add: team_edges_of_def)
  let ?idxs = "filter (\<lambda>k. prop_player_name (heap_props h ! k)
      = prop_player_name (heap_props h ! i)) [0..<?n]"
  have ii: "i \<in> set ?idxs" and jj: "j \<in> set ?idxs" using i j nm by simp_all
  have "?idxs \<noteq> []" using ii by (metis empty_iff empty_set)
  then have pp: "(prop_player_name (heap_props h ! i), ?idxs) \<in> set ?pbp"
    unfolding props_by_player_mem by simp
  have "(es, g, i) \<in> team_triples (backfilled_props ev h) games ?pbp (t, es)"
    unfolding team_triples_def fst_conv snd_conv g option.case
    using pp ii jj tj by (intro CollectI exI[of _ i] conjI refl bexI[of _ "(prop_player_name (heap_props h ! i), ?idxs)"]; simp; blast)
  then show ?L using team by blast
qed

lemma backfilled_type:
  "i < length (heap_props h) \<Longrightarrow>
   prop_type (backfilled_props ev h ! i) = prop_type (heap_props h ! i)"
  by (simp add: backfilled_props_def backfill_team_fields)

lemma analyses_sound:
  assumes "a \<in> set (fst (match_edges_to_props ev h games))"
  shows "\<exists>t i. prop_reached ev h games t i \<and> analysis_for ev h games t i a"
proof -
  let ?ps1 = "backfilled_props ev h"
  from match_edges_to_props_inv[of ev h games] assms
  obtain es g i where tr: "(es, g, i) \<in> (\<Union>team\<in>set (group_edges_by_team (heap_edges h)).
        team_triples ?ps1 games
          (snd (group_props_by_player (player_name_to_team (league_stats ev)) (heap_props h)))
          team)"
    and ne: "find_edges_for_prop (?ps1 ! i) es \<noteq> []" and tag: "analysis_tag ?ps1 es g i a"
    unfolding engine_inv_def snd_conv by blast
  from tr obtain t where es: "es = team_edges_of h t"
    and g: "find_game_for_team t games = Some g" and i: "i < length (heap_props h)"
    and j: "\<exists>j<length (heap_props h).
                prop_player_name (heap_props h ! j) = prop_player_name (heap_props h ! i)
                \<and> Some (prop_team_abbr (?ps1 ! j)) = t"
    unfolding engine_triples_mem by blast
  have fe: "find_edges_for_prop (?ps1 ! i) es = find_edges_for_prop (heap_props h ! i) es"
    using backfilled_type[OF i] by (rule find_edges_for_prop_type)
  have "find_edges_for_prop (heap_props h ! i) es \<noteq> []" using ne fe by simp
  then have "\<exists>e\<in>set es. edge_matches_category e (prop_type (heap_props h ! i))"
    by (simp only: find_edges_nonempty_iff)
  then have "prop_reached ev h games t i"
    unfolding prop_reached_def using i g j es by simp
  moreover have "analysis_for ev h games t i a"
    unfolding analysis_for_def using tag g fe es by (simp add: analysis_tag_def)
  ultimately show ?thesis by blast
qed

lemma analyses_complete:
  assumes "prop_reached ev h games t i"
  shows "\<exists>a\<in>set (fst (match_edges_to_props ev h games)). analysis_for ev h games t i a"
proof -
  let ?ps1 = "backfilled_props ev h"
  let ?es = "team_edges_of h t"
  from assms obtain g where g: "find_game_for_team t games = Some g"
    and i: "i < length (heap_props h)"
    and j: "\<exists>j<length (heap_props h).
                prop_player_name (heap_props h ! j) = prop_player_name (heap_props h ! i)
                \<and> Some (prop_team_abbr (?ps1 ! j)) = t"
    and m: "\<exists>e\<in>set ?es. edge_matches_category e (prop_type (heap_props h ! i))"
    unfolding prop_reached_def by blast
  have fe: "find_edges_for_prop (?ps1 ! i) ?es = find_edges_for_prop (heap_props h ! i) ?es"
    using backfilled_type[OF i] by (rule find_edges_for_prop_type)
  have "find_edges_for_prop (heap_props h ! i) ?es \<noteq> []"
    using m by (simp only: find_edges_nonempty_iff)
  then have ne: "find_edges_for_prop (?ps1 ! i) ?es \<noteq> []" using fe by simp
  have "?es \<noteq> []" using m by auto
  then have tr: "(?es, g, i) \<in> (\<Union>team\<in>set (group_edges_by_team (heap_edges h)).
        team_triples ?ps1 games
          (snd (group_props_by_player (player_name_to_team (league_stats ev)) (heap_props h)))
          team)"
    unfolding engine_triples_mem using g i j by blast
  from match_edges_to_props_inv[of ev h games] tr ne
  obtain a where a: "a \<in> set (fst (match_edges_to_props ev h games))"
    and tag: "analysis_tag ?ps1 ?es g i a"
    unfolding engine_inv_def snd_conv by blast
  have "analysis_for ev h games t i a"
    unfolding analysis_for_def using tag g fe by (simp add: analysis_tag_def)
  then show ?thesis using a by blast
qed

text \<open>
  Claim C4, amended. The engine produces an analysis for a prop and a team exactly when
  the team plays in one of the supplied games, the player of the prop has a prop whose
  team, after the backfill of unknown teams, is that team, and at least one edge of the
  team matches the category of the prop, a compound category being matched through any of
  its components. The analysis carries the prop, the game of the team and the matching
  edges of the team. An edge that affects only assists matches a \<open>pts_asts\<close> prop and no
  \<open>rebounds\<close> prop.
\<close>

theorem analysis_iff_reached_and_matching_edge:
  "(\<forall>a\<in>set (fst (match_edges_to_props ev h games)).
       \<exists>t i. prop_reached ev h games t i \<and> analysis_for ev h games t i a)
   \<and> (\<forall>t i. prop_reached ev h games t i \<longrightarrow>
         (\<exists>a\<in>set (fst (match_edges_to_props ev h games)). analysis_for ev h games t i a))
   \<and> set (find_edges_for_prop p es) = {e \<in> set es. edge_matches_category e (prop_type p)}
   \<and> (edge_affected_stats e = [''assists''] \<longrightarrow>
        find_edges_for_prop (p\<lparr>prop_type := ''pts_asts''\<rparr>) [e] = [e]
      \<and> find_edges_for_prop (p\<lparr>prop_type := ''rebounds''\<rparr>) [e] = [])"
proof -
  have 3: "edge_affected_stats e = [''assists''] \<longrightarrow>
        find_edges_for_prop (p\<lparr>prop_type := ''pts_asts''\<rparr>) [e] = [e]
      \<and> find_edges_for_prop (p\<lparr>prop_type := ''rebounds''\<rparr>) [e] = []"
    by (simp add: find_edges_for_prop_def edge_step_def append_if_new_def affects_any_def
        Let_def)
  show ?thesis using analyses_sound analyses_complete 3 set_find_edges_for_prop by blast
qed

lemma example_matches: "edge_matches_category example_edge ''pts_asts''"
  by (simp add: edge_matches_category_def category_components_def example_edge_def)

lemma example_backfilled:
  "backfilled_props example_env example_heap = [example_prop\<lparr>prop_team_abbr := ''BOS''\<rparr>]"
  by (simp add: backfilled_props_def backfill_team_def example_heap_def example_env_def
      example_prop_def player_name_to_team_def)

lemma example_team_edges: "team_edges_of example_heap (Some ''BOS'') = [example_edge]"
  by (simp add: team_edges_of_def example_heap_def example_edge_def)

lemma example_reached:
  "prop_reached example_env example_heap [example_game] (Some ''BOS'') 0"
  unfolding prop_reached_def example_backfilled example_team_edges
  using example_matches
  by (simp add: example_heap_def ex_find_game) (simp add: example_prop_def)

theorem analysis_iff_reached_and_matching_edge_witness:
  "prop_reached example_env example_heap [example_game] (Some ''BOS'') 0
   \<and> fst (match_edges_to_props example_env example_heap [example_game]) = [example_analysis]
   \<and> analysis_for example_env example_heap [example_game] (Some ''BOS'') 0 example_analysis
   \<and> find_edges_for_prop (example_prop\<lparr>prop_type := ''pts_asts''\<rparr>) [example_edge]
       = [example_edge]
   \<and> find_edges_for_prop (example_prop\<lparr>prop_type := ''rebounds''\<rparr>) [example_edge] = []"
proof -
  have a: "edge_affected_stats example_edge = [''assists'']"
    by (simp add: example_edge_def)
  show ?thesis
    using analysis_iff_reached_and_matching_edge
      [of example_env example_heap "[example_game]" example_prop "[]" example_edge]
      example_reached a
    by (simp add: match_example)
qed

text \<open>
  Claim C4, against the claim as stated: with no game supplied the engine returns no
  analysis, although the edge of the example benefits Boston, the team of the prop after
  the backfill, and affects assists, a component of the category \<open>pts_asts\<close> of the prop.
\<close>

theorem engine_needs_game_counterexample:
  "edge_team_abbr example_edge = Some ''BOS''
   \<and> prop_team_abbr (hd (backfilled_props example_env example_heap)) = ''BOS''
   \<and> edge_matches_category example_edge (prop_type example_prop)
   \<and> fst (match_edges_to_props example_env example_heap []) = []"
proof -
  have "fst (match_edges_to_props example_env example_heap []) = []"
    by (simp add: match_edges_to_props_def example_heap_def ex_edges analyse_team_def
        find_game_for_team_def Let_def)
  moreover have "prop_type example_prop = ''pts_asts''" by (simp add: example_prop_def)
  moreover have "edge_team_abbr example_edge = Some ''BOS''" by (simp add: example_edge_def)
  ultimately show ?thesis using example_matches by (simp add: example_backfilled)
qed

subsection \<open>What the engine writes\<close>

lemma prop_frame_refl: "prop_frame ev p p"
  by (simp add: prop_frame_def)

lemma prop_frame_name: "prop_frame ev p p' \<Longrightarrow> prop_player_name p' = prop_player_name p"
  unfolding prop_frame_def
  by (metis prop_bet.select_convs(2) prop_bet.surjective prop_bet.update_convs(1) prop_bet.update_convs(3))

lemma prop_frame_trans:
  assumes "prop_frame ev p p'" and "prop_frame ev p' p''"
  shows "prop_frame ev p p''"
proof -
  have n: "prop_player_name p' = prop_player_name p" using assms(1) by (rule prop_frame_name)
  have e1: "p' = p\<lparr>prop_team_abbr := prop_team_abbr p', prop_player_id := prop_player_id p'\<rparr>"
    using assms(1) by (simp add: prop_frame_def)
  have e2: "p'' = p'\<lparr>prop_team_abbr := prop_team_abbr p'', prop_player_id := prop_player_id p''\<rparr>"
    using assms(2) by (simp add: prop_frame_def)
  have eq: "p'' = p\<lparr>prop_team_abbr := prop_team_abbr p'', prop_player_id := prop_player_id p''\<rparr>"
    by (subst e2, subst e1) simp
  have t: "prop_team_abbr p'' \<noteq> prop_team_abbr p \<longrightarrow>
          prop_team_abbr p = ''UNK''
          \<and> player_name_to_team (league_stats ev) (prop_player_name p)
              = Some (prop_team_abbr p'')"
    using assms n unfolding prop_frame_def by (metis option.inject)
  have i: "prop_player_id p'' \<noteq> prop_player_id p \<longrightarrow>
          prop_player_id p = 0
          \<and> (prop_player_name p, prop_player_id p'') \<in> set (static_players ev)"
    using assms n unfolding prop_frame_def by metis
  show ?thesis unfolding prop_frame_def using eq t i by blast
qed

lemma props_frame_refl: "props_frame ev ps ps"
  by (simp add: props_frame_def prop_frame_refl)

lemma props_frame_trans:
  "props_frame ev ps ps' \<Longrightarrow> props_frame ev ps' ps'' \<Longrightarrow> props_frame ev ps ps''"
  unfolding props_frame_def using prop_frame_trans by metis

lemma props_frame_update:
  assumes "prop_frame ev (ps ! i) p'"
  shows "props_frame ev ps (ps[i := p'])"
proof -
  have "prop_frame ev (ps ! j) (ps[i := p'] ! j)" if "j < length ps" for j
    using that assms by (cases "j = i") (simp_all add: prop_frame_refl)
  then show ?thesis by (simp add: props_frame_def)
qed

lemma fold_props_frame:
  assumes step: "\<And>x st. props_frame ev (fst st) (fst (f x st))"
  shows "props_frame ev (fst st) (fst (fold f xs st))"
proof (induction xs arbitrary: st)
  case Nil show ?case by (simp add: props_frame_refl)
next
  case (Cons x xs)
  show ?case using props_frame_trans[OF step[of st x] Cons.IH[of "f x st"]] by simp
qed

lemma group_prop_step_frame:
  "props_frame ev (fst st) (fst (group_prop_step (player_name_to_team (league_stats ev)) i st))"
proof -
  have "prop_frame ev p (p\<lparr>prop_team_abbr := t\<rparr>)"
    if "prop_team_abbr p = ''UNK''"
      and "player_name_to_team (league_stats ev) (prop_player_name p) = Some t" for p t
    using that by (simp add: prop_frame_def)
  then show ?thesis
    by (auto simp: group_prop_step_def Let_def props_frame_refl
        intro!: props_frame_update split: option.splits)
qed

lemma lookup_player_id_mem:
  "lookup_player_id players name = Some n \<Longrightarrow> (name, n) \<in> set players"
proof -
  assume "lookup_player_id players name = Some n"
  then obtain q where q: "List.find (\<lambda>p. fst p = name) players = Some q" and n: "snd q = n"
    by (auto simp: lookup_player_id_def)
  from q obtain k where "k < length players" "fst (players ! k) = name" "q = players ! k"
    unfolding find_Some_iff by blast
  then have "q \<in> set players" "fst q = name" by auto
  then show ?thesis using n by (metis prod.collapse)
qed

lemma create_prop_analysis_frame:
  "props_frame ev ps (fst (create_prop_analysis ev ps i es g opp))"
proof -
  have "prop_frame ev p (p\<lparr>prop_player_id := n\<rparr>)"
    if "prop_player_id p = 0"
      and "lookup_player_id (static_players ev) (prop_player_name p) = Some n" for p n
    using that lookup_player_id_mem[OF that(2)] by (simp add: prop_frame_def)
  then show ?thesis
    by (auto simp: create_prop_analysis_def Let_def props_frame_refl
        intro!: props_frame_update split: option.splits if_splits)
qed

lemma analyse_prop_frame:
  "props_frame ev (fst st) (fst (analyse_prop ev es g opp i st))"
  by (simp add: analyse_prop_def Let_def props_frame_refl create_prop_analysis_frame)

lemma analyse_team_frame:
  "props_frame ev (fst st) (fst (analyse_team ev games pbp t st))"
proof (cases "find_game_for_team (fst t) games")
  case None
  then show ?thesis by (simp add: analyse_team_def props_frame_refl)
next
  case (Some g)
  have inner: "\<And>pp st. props_frame ev (fst st) (fst (fold (analyse_prop ev es g opp) (snd pp) st))"
    for es opp
    by (rule fold_props_frame) (rule analyse_prop_frame)
  show ?thesis
    unfolding analyse_team_def Let_def Some option.case
    by (rule fold_props_frame) (rule inner)
qed

lemma match_props_frame:
  "props_frame ev (heap_props h) (heap_props (snd (match_edges_to_props ev h games)))"
proof -
  let ?grouped = "group_props_by_player (player_name_to_team (league_stats ev)) (heap_props h)"
  have 1: "props_frame ev (heap_props h) (fst ?grouped)"
    unfolding group_props_by_player_def
    using fold_props_frame[where f="group_prop_step (player_name_to_team (league_stats ev))"
        and st="(heap_props h, [])", OF group_prop_step_frame]
    by simp
  have 2: "props_frame ev (fst ?grouped)
     (fst (fold (analyse_team ev games (snd ?grouped)) (group_edges_by_team (heap_edges h))
        (fst ?grouped, [])))"
    using fold_props_frame[where f="analyse_team ev games (snd ?grouped)"
        and st="(fst ?grouped, [])", OF analyse_team_frame]
    by simp
  show ?thesis
    unfolding match_edges_to_props_def Let_def
    using props_frame_trans[OF 1 2] by simp
qed

text \<open>
  Claim C3, against the claim as stated: on the slate of the example the engine returns
  with the team and the player id of the input prop overwritten.
\<close>

theorem match_mutates_prop_counterexample:
  "heap_props (snd (match_edges_to_props example_env example_heap [example_game]))
     \<noteq> heap_props example_heap
   \<and> prop_team_abbr (hd (heap_props example_heap)) = ''UNK''
   \<and> prop_player_id (hd (heap_props example_heap)) = 0
   \<and> prop_team_abbr
        (hd (heap_props (snd (match_edges_to_props example_env example_heap [example_game]))))
       = ''BOS''
   \<and> prop_player_id
        (hd (heap_props (snd (match_edges_to_props example_env example_heap [example_game]))))
       = 77"
  by (simp add: match_example) (simp add: example_heap_def example_prop_def)

text \<open>
  Claim C3, amended. The engine leaves every input edge as it was and keeps the number and
  order of the props; on each prop it changes no field other than \<open>team_abbr\<close> and
  \<open>player_id\<close>. It overwrites \<open>team_abbr\<close> only where it was \<open>UNK\<close>, with the team that
  the league lookup has for the player, and \<open>player_id\<close> only where it was 0, with an id
  that the static list of players has for the name.
\<close>

theorem match_frame:
  assumes "match_edges_to_props ev h games = (analyses, h')"
  shows "heap_edges h' = heap_edges h
    \<and> length (heap_props h') = length (heap_props h)
    \<and> (\<forall>i<length (heap_props h).
          heap_props h' ! i = (heap_props h ! i)
             \<lparr>prop_team_abbr := prop_team_abbr (heap_props h' ! i),
              prop_player_id := prop_player_id (heap_props h' ! i)\<rparr>
          \<and> (prop_team_abbr (heap_props h' ! i) \<noteq> prop_team_abbr (heap_props h ! i) \<longrightarrow>
               prop_team_abbr (heap_props h ! i) = ''UNK''
               \<and> player_name_to_team (league_stats ev) (prop_player_name (heap_props h ! i))
                   = Some (prop_team_abbr (heap_props h' ! i)))
          \<and> (prop_player_id (heap_props h' ! i) \<noteq> prop_player_id (heap_props h ! i) \<longrightarrow>
               prop_player_id (heap_props h ! i) = 0
               \<and> (prop_player_name (heap_props h ! i), prop_player_id (heap_props h' ! i))
                   \<in> set (static_players ev)))"
proof -
  have e: "heap_edges h' = heap_edges h"
    using assms by (auto simp: match_edges_to_props_def Let_def)
  have "props_frame ev (heap_props h) (heap_props h')"
    using match_props_frame[of ev h games] assms by simp
  then show ?thesis using e unfolding props_frame_def prop_frame_def by blast
qed

theorem match_frame_witness:
  "heap_edges (snd (match_edges_to_props example_env example_heap [example_game]))
     = heap_edges example_heap
   \<and> heap_props (snd (match_edges_to_props example_env example_heap [example_game]))
     = [example_prop\<lparr>prop_team_abbr := ''BOS'', prop_player_id := 77\<rparr>]
   \<and> player_name_to_team (league_stats example_env) (prop_player_name example_prop)
     = Some ''BOS''
   \<and> (prop_player_name example_prop, 77) \<in> set (static_players example_env)"
  using match_frame [of example_env example_heap "[example_game]" "[example_analysis]"
      "\<lparr>heap_props = [example_prop\<lparr>prop_team_abbr := ''BOS'', prop_player_id := 77\<rparr>],
        heap_edges = [example_edge]\<rparr>"]
  by (simp add: match_example) (simp add: example_heap_def example_prop_def)

subsection \<open>Minutes gate\<close>

lemma stdev_gt_iff: "0 \<le> c \<Longrightarrow> c < stdev xs \<longleftrightarrow> c\<^sup>2 < sample_variance xs"
proof -
  assume c: "0 \<le> c"
  have "c < sqrt (sample_variance xs) \<longleftrightarrow> sqrt (c\<^sup>2) < sqrt (sample_variance xs)"
    using c by simp
  also have "\<dots> \<longleftrightarrow> c\<^sup>2 < sample_variance xs" by (rule real_sqrt_less_iff)
  finally show ?thesis by (simp add: stdev_def)
qed

lemma dnp_count_pos:
  "length (filter (\<lambda>g. log_minutes g = 0) ls) > 0 \<longleftrightarrow> 0 \<in> set (map log_minutes ls)"
  by (induction ls) auto

lemma dnp_filter_empty:
  "filter (\<lambda>g. log_minutes g = 0) ls = [] \<longleftrightarrow> 0 \<notin> log_minutes ` set ls"
  by (induction ls) auto

lemma validate_minutes_security_verdict:
  assumes n: "1 \<le> min_minutes_last_n cfg"
  shows "\<exists>a'. validate_minutes_security cfg a
            = Inr (\<not> fatal_minutes_condition cfg (pa_player_game_logs a), a')"
proof (cases "int (length (pa_player_game_logs a)) < min_minutes_last_n cfg")
  case True
  then show ?thesis
    by (simp add: validate_minutes_security_def fatal_minutes_condition_def Let_def)
next
  case False
  let ?logs = "pa_player_game_logs a"
  let ?recent = "take (nat (min_minutes_last_n cfg)) ?logs"
  from False n have ne: "?logs \<noteq> []" by auto
  have sl: "py_slice_to (min_minutes_last_n cfg) ?logs = ?recent"
    using n by (simp add: py_slice_to_def)
  have rne: "?recent \<noteq> []" using ne n by (cases ?logs) (auto simp: take_Cons')
  show ?thesis
    unfolding validate_minutes_security_def fatal_minutes_condition_def Let_def sl
    using False ne rne by (simp add: dnp_filter_empty)
qed

lemma validate_dnp_example:
  assumes n: "1 \<le> min_minutes_last_n cfg"
    and m: "map log_minutes (pa_player_game_logs a) = [0, 30, 31, 29, 30]"
  shows "validate_minutes_security cfg a = Inr (False, a)"
proof -
  let ?logs = "pa_player_game_logs a"
  from m obtain g gs where l: "?logs = g # gs" and g: "log_minutes g = 0"
    by (cases ?logs) auto
  have sl: "py_slice_to (min_minutes_last_n cfg) ?logs = g # take (nat (min_minutes_last_n cfg) - 1) gs"
    using n by (simp add: py_slice_to_def l take_Cons')
  show ?thesis
    unfolding validate_minutes_security_def Let_def sl using g by (simp add: l)
qed

lemma validate_secure_example:
  assumes n: "min_minutes_last_n cfg = 5" and t: "min_minutes_threshold cfg \<le> 31"
    and m: "map log_minutes (pa_player_game_logs a) = [31, 33, 30, 32, 29]"
  shows "validate_minutes_security cfg a = Inr (True, a)"
proof -
  let ?logs = "pa_player_game_logs a"
  have len: "length ?logs = 5" using arg_cong[OF m, of length] by simp
  have sl: "py_slice_to (min_minutes_last_n cfg) ?logs = ?logs"
    using n len by (simp add: py_slice_to_def)
  have ne: "(?logs = []) = False" using len by auto
  have few: "(int (length ?logs) < min_minutes_last_n cfg) = False" using len n by simp
  have avg: "(sum_list [31, 33, 30, 32, 29] / real (length ?logs) < min_minutes_threshold cfg)
      = False"
    using len t by simp
  have sd: "(7.0 < stdev [31, 33, 30, 32, 29]) = False"
    by (simp add: stdev_gt_iff sample_variance_def)
  have tr: "minutes_trend_note ?logs = []" using len by (simp add: minutes_trend_note_def)
  have dn: "(0 < length (filter (\<lambda>g. log_minutes g = 0) ?logs)) = False"
    unfolding dnp_count_pos m by simp
  have mn: "(Min (set [31, 33, 30, 32, 29 :: real]) < 15) = False" by simp
  show ?thesis
    unfolding validate_minutes_security_def Let_def sl tr m ne few avg sd dn mn
    by simp
qed

text \<open>
  Claim C5. With at least one game required, the minutes gate returns a verdict, and the
  verdict is \<open>False\<close> exactly when one of the four fatal conditions holds on the recent
  window. Minutes 0, 30, 31, 29, 30 fail whatever the floor on the average is; minutes
  31, 33, 30, 32, 29 pass a window of five games and a floor of at most 31 and leave the
  analysis, with its risk notes, as it was.
\<close>

theorem minutes_gate_fails_iff_fatal:
  assumes "1 \<le> min_minutes_last_n cfg"
  shows "(\<exists>a'. validate_minutes_security cfg a
            = Inr (\<not> fatal_minutes_condition cfg (pa_player_game_logs a), a'))
    \<and> (map log_minutes (pa_player_game_logs a) = [0, 30, 31, 29, 30] \<longrightarrow>
         validate_minutes_security cfg a = Inr (False, a))
    \<and> (map log_minutes (pa_player_game_logs a) = [31, 33, 30, 32, 29]
         \<and> min_minutes_last_n cfg = 5 \<and> min_minutes_threshold cfg \<le> 31 \<longrightarrow>
         validate_minutes_security cfg a = Inr (True, a))"
proof (intro conjI impI)
  show "\<exists>a'. validate_minutes_security cfg a
            = Inr (\<not> fatal_minutes_condition cfg (pa_player_game_logs a), a')"
    using assms by (rule validate_minutes_security_verdict)
next
  assume "map log_minutes (pa_player_game_logs a) = [0, 30, 31, 29, 30]"
  with assms show "validate_minutes_security cfg a = Inr (False, a)"
    by (rule validate_dnp_example)
next
  assume "map log_minutes (pa_player_game_logs a) = [31, 33, 30, 32, 29]
         \<and> min_minutes_last_n cfg = 5 \<and> min_minutes_threshold cfg \<le> 31"
  then show "validate_minutes_security cfg a = Inr (True, a)"
    by (simp add: validate_secure_example)
qed

lemma example_minutes:
  "map log_minutes (pa_player_game_logs (analysis_with_minutes ms)) = ms"
  by (simp add: analysis_with_minutes_def example_log_def comp_def)

theorem minutes_gate_fails_iff_fatal_witness:
  "1 \<le> min_minutes_last_n default_settings
   \<and> validate_minutes_security default_settings (analysis_with_minutes [0, 30, 31, 29, 30])
       = Inr (False, analysis_with_minutes [0, 30, 31, 29, 30])
   \<and> fatal_minutes_condition default_settings
        (pa_player_game_logs (analysis_with_minutes [0, 30, 31, 29, 30]))"
proof -
  have n: "1 \<le> min_minutes_last_n default_settings"
    by (simp add: default_settings_def)
  let ?a = "analysis_with_minutes [0, 30, 31, 29, 30]"
  have v: "validate_minutes_security default_settings ?a = Inr (False, ?a)"
    using minutes_gate_fails_iff_fatal [OF n, of ?a] by (simp add: example_minutes)
  obtain a' where "validate_minutes_security default_settings ?a
      = Inr (\<not> fatal_minutes_condition default_settings (pa_player_game_logs ?a), a')"
    using minutes_gate_fails_iff_fatal [OF n, of ?a] by blast
  with v have "fatal_minutes_condition default_settings (pa_player_game_logs ?a)" by simp
  with n v show ?thesis by simp
qed

subsection \<open>Minutes security score\<close>

lemma clamp_unit: "0 \<le> max 0.0 (min 1.0 (x::real)) \<and> max 0.0 (min 1.0 x) \<le> 1"
  by simp

text \<open>
  Claim C10. With fewer than three game logs, the empty history included, the minutes
  security score is exactly 0, not the neutral 0.5 of longer histories; in every case
  the score lies between 0 and 1.
\<close>

theorem minutes_security_score_short_history:
  "(length (pa_player_game_logs a) < 3 \<longrightarrow> calculate_minutes_security_score cfg a = 0)
   \<and> 0 \<le> calculate_minutes_security_score cfg a
   \<and> calculate_minutes_security_score cfg a \<le> 1"
proof (cases "pa_player_game_logs a = [] \<or> length (pa_player_game_logs a) < 3")
  case True
  then show ?thesis by (auto simp: calculate_minutes_security_score_def)
next
  case False
  then have c: "(pa_player_game_logs a = [] \<or> length (pa_player_game_logs a) < 3) = False"
    by simp
  have "\<exists>x. calculate_minutes_security_score cfg a = max 0.0 (min 1.0 x)"
    unfolding calculate_minutes_security_score_def Let_def c if_False
    by (rule exI) (rule refl)
  then obtain x where x: "calculate_minutes_security_score cfg a = max 0.0 (min 1.0 x)" ..
  from False have "\<not> length (pa_player_game_logs a) < 3" by simp
  then show ?thesis unfolding x using clamp_unit[of x] by blast
qed

theorem minutes_security_score_short_history_witness:
  "length (pa_player_game_logs (analysis_with_minutes [30, 31])) < 3
   \<and> calculate_minutes_security_score default_settings (analysis_with_minutes [30, 31]) = 0"
  using minutes_security_score_short_history
    [of "analysis_with_minutes [30, 31]" default_settings]
  by (simp add: analysis_with_minutes_def)

subsection \<open>Diversification\<close>

lemma counts_agree_init: "counts_agree ([], Map.empty, Map.empty)"
  by (simp add: counts_agree_def dict_get_def)

lemma diversify_step_counts:
  "counts_agree st \<Longrightarrow> counts_agree (diversify_step mpp mpg a st)"
  by (auto simp: counts_agree_def diversify_step_def Let_def dict_get_def)

lemma diversify_step_selected:
  assumes "counts_agree st"
  shows "fst (diversify_step mpp mpg a st) =
     (if int (length (filter (\<lambda>b. player_name (pa_player b) = player_name (pa_player a))
                        (fst st))) \<ge> mpp
         \<or> int (length (filter (\<lambda>b. game_id (pa_game b) = game_id (pa_game a))
                           (fst st))) \<ge> mpg
      then fst st else fst st @ [a])"
proof -
  have p: "dict_get (fst (snd st)) (player_name (pa_player a)) 0
      = int (length (filter (\<lambda>b. player_name (pa_player b) = player_name (pa_player a)) (fst st)))"
    using assms by (simp add: counts_agree_def)
  have g: "dict_get (snd (snd st)) (game_id (pa_game a)) 0
      = int (length (filter (\<lambda>b. game_id (pa_game b) = game_id (pa_game a)) (fst st)))"
    using assms by (simp add: counts_agree_def)
  show ?thesis unfolding diversify_step_def Let_def p g by simp
qed

lemma fold_diversify_step:
  "counts_agree st \<Longrightarrow>
   fst (fold (diversify_step mpp mpg) xs st) = greedy_pass mpp mpg (fst st) xs"
proof (induction xs arbitrary: st)
  case Nil
  then show ?case by simp
next
  case (Cons a xs)
  have c: "counts_agree (diversify_step mpp mpg a st)"
    using Cons.prems by (rule diversify_step_counts)
  show ?case
    using Cons.IH[OF c] diversify_step_selected[OF Cons.prems, of mpp mpg a] by simp
qed

lemma diversify_picks_greedy:
  "diversify_picks analyses mpp mpg = greedy_pass mpp mpg [] analyses"
  unfolding diversify_picks_def
  using fold_diversify_step[OF counts_agree_init, of mpp mpg analyses] by simp

lemma greedy_pass_subseq:
  "\<exists>ys. greedy_pass mpp mpg admitted xs = admitted @ ys \<and> subseq ys xs"
proof (induction xs arbitrary: admitted)
  case Nil
  then show ?case by simp
next
  case (Cons a xs)
  show ?case
  proof (cases "int (length (filter (\<lambda>b. player_name (pa_player b) = player_name (pa_player a))
                        admitted)) \<ge> mpp
         \<or> int (length (filter (\<lambda>b. game_id (pa_game b) = game_id (pa_game a))
                           admitted)) \<ge> mpg")
    case True
    from Cons.IH[of admitted] obtain ys
      where "greedy_pass mpp mpg admitted xs = admitted @ ys" "subseq ys xs" by blast
    then show ?thesis using True by auto
  next
    case False
    from Cons.IH[of "admitted @ [a]"] obtain ys
      where "greedy_pass mpp mpg (admitted @ [a]) xs = (admitted @ [a]) @ ys" "subseq ys xs"
      by blast
    then have "greedy_pass mpp mpg admitted (a # xs) = admitted @ (a # ys)"
      "subseq (a # ys) (a # xs)"
      using False by auto
    then show ?thesis by blast
  qed
qed

lemma diversify_picks_subseq: "subseq (diversify_picks analyses mpp mpg) analyses"
  using greedy_pass_subseq[of mpp mpg "[]" analyses] by (auto simp: diversify_picks_greedy)

text \<open>
  Claim C8. \<open>diversify_picks\<close> is the single greedy pass over its input: it returns the
  subsequence of the input, in the order of the input, left after skipping every analysis
  whose player has \<open>max_per_player\<close> admitted entries or whose game has
  \<open>max_per_game\<close> admitted entries. Of three analyses of one player, with
  \<open>max_per_player = 1\<close> and room in the game, only the first survives.
\<close>

theorem diversify_is_greedy_pass:
  "diversify_picks analyses max_per_player max_per_game
     = greedy_pass max_per_player max_per_game [] analyses
   \<and> subseq (diversify_picks analyses max_per_player max_per_game) analyses
   \<and> (player_name (pa_player a2) = player_name (pa_player a1)
      \<and> player_name (pa_player a3) = player_name (pa_player a1) \<and> 0 < max_per_game \<longrightarrow>
        diversify_picks [a1, a2, a3] 1 max_per_game = [a1])"
  by (simp add: diversify_picks_subseq) (simp add: diversify_picks_greedy)

theorem diversify_is_greedy_pass_witness:
  "0 < (2::int)
   \<and> diversify_picks [pick ''A'' ''G1'' 0.9, pick ''A'' ''G1'' 0.8, pick ''A'' ''G1'' 0.7] 1 2
       = [pick ''A'' ''G1'' 0.9]"
  using diversify_is_greedy_pass
    [of "[]" 1 2 "pick ''A'' ''G1'' 0.8" "pick ''A'' ''G1'' 0.9" "pick ''A'' ''G1'' 0.7"]
  by (simp add: pick_def)

subsection \<open>Selection of the final picks\<close>

lemma py_slice_to_prefix: "prefix (py_slice_to n xs) xs"
  by (simp add: py_slice_to_def take_is_prefix)

lemma select_top_picks_eq:
  "select_top_picks cfg analyses (Some n)
     = py_slice_to n (filter (\<lambda>a. pa_confidence_score a \<ge> 0.4) analyses)"
  by (simp add: select_top_picks_def Let_def)

lemma run_analysis_selection_eq:
  "run_analysis_selection cfg ranked =
     py_slice_to (max_picks cfg)
       (filter (\<lambda>a. pa_confidence_score a \<ge> 0.4) (diversify_picks ranked 1 2))"
  by (simp add: run_analysis_selection_def Let_def select_top_picks_eq)

lemma run_analysis_selection_subseq:
  "subseq (run_analysis_selection cfg ranked)
     (filter (\<lambda>a. pa_confidence_score a \<ge> 0.4) (diversify_picks ranked 1 2))"
  unfolding run_analysis_selection_eq by (rule prefix_imp_subseq) (rule py_slice_to_prefix)

text \<open>
  Claim C9. The pipeline diversifies the whole ranked list, then applies the quality floor
  of 0.4 and cuts to the configured number of picks. So no final pick has a confidence
  score below 0.4, the final picks are a subsequence of the ranked list, and the list is
  as long as the configured number allows: an analysis dropped by a cap is replaced by the
  next one that passes the caps and the floor.
\<close>

theorem selection_respects_floor_and_backfills:
  "(\<forall>a\<in>set (run_analysis_selection cfg ranked). pa_confidence_score a \<ge> 0.4)
   \<and> run_analysis_selection cfg ranked =
       py_slice_to (max_picks cfg)
         (filter (\<lambda>a. pa_confidence_score a \<ge> 0.4) (diversify_picks ranked 1 2))
   \<and> subseq (run_analysis_selection cfg ranked) ranked
   \<and> (0 \<le> max_picks cfg \<longrightarrow>
        length (run_analysis_selection cfg ranked) =
          min (nat (max_picks cfg))
            (length (filter (\<lambda>a. pa_confidence_score a \<ge> 0.4)
                       (diversify_picks ranked 1 2))))"
proof (intro conjI)
  let ?q = "filter (\<lambda>a. pa_confidence_score a \<ge> 0.4) (diversify_picks ranked 1 2)"
  have "set (run_analysis_selection cfg ranked) \<subseteq> set ?q"
    unfolding run_analysis_selection_eq by (rule set_mono_prefix) (rule py_slice_to_prefix)
  then show "\<forall>a\<in>set (run_analysis_selection cfg ranked). pa_confidence_score a \<ge> 0.4"
    by auto
  show "run_analysis_selection cfg ranked = py_slice_to (max_picks cfg) ?q"
    by (rule run_analysis_selection_eq)
  have "subseq ?q (diversify_picks ranked 1 2)" by simp
  then have "subseq ?q ranked"
    using diversify_picks_subseq[of ranked 1 2] subseq_order.trans by blast
  then show "subseq (run_analysis_selection cfg ranked) ranked"
    using run_analysis_selection_subseq[of cfg ranked] subseq_order.trans by blast
  show "0 \<le> max_picks cfg \<longrightarrow>
        length (run_analysis_selection cfg ranked) = min (nat (max_picks cfg)) (length ?q)"
    by (simp add: run_analysis_selection_eq py_slice_to_def min.commute)
qed

theorem selection_respects_floor_and_backfills_witness:
  "0 \<le> max_picks (default_settings\<lparr>max_picks := 2\<rparr>)
   \<and> run_analysis_selection (default_settings\<lparr>max_picks := 2\<rparr>)
       [pick ''A'' ''G1'' 0.9, pick ''A'' ''G1'' 0.8, pick ''B'' ''G2'' 0.7, pick ''C'' ''G3'' 0.3]
       = [pick ''A'' ''G1'' 0.9, pick ''B'' ''G2'' 0.7]
   \<and> length (run_analysis_selection (default_settings\<lparr>max_picks := 2\<rparr>)
       [pick ''A'' ''G1'' 0.9, pick ''A'' ''G1'' 0.8, pick ''B'' ''G2'' 0.7, pick ''C'' ''G3'' 0.3])
       = 2"
  using selection_respects_floor_and_backfills
    [of "default_settings\<lparr>max_picks := 2\<rparr>"
      "[pick ''A'' ''G1'' 0.9, pick ''A'' ''G1'' 0.8, pick ''B'' ''G2'' 0.7, pick ''C'' ''G3'' 0.3]"]
  by (simp add: diversify_picks_greedy py_slice_to_def pick_def default_settings_def)

subsection \<open>Projected range\<close>

lemma fold_edge_adjustment:
  "fold (\<lambda>e adj. if edge_strength e > 0.5 then adj + (edge_strength e - 0.5) * 2 else adj)
     edges a
   = a + (\<Sum>e\<leftarrow>edges. if edge_strength e > 0.5 then (edge_strength e - 0.5) * 2 else 0)"
  by (induction edges arbitrary: a) simp_all

lemma edge_adjustment_loop_sum:
  "min (max (edge_adjustment_loop edges) (- 2)) 4 = edge_adjustment_sum edges"
  unfolding edge_adjustment_loop_def edge_adjustment_sum_def fold_edge_adjustment by simp

lemma weighted_averages_lookup:
  assumes "logs \<noteq> []"
  shows "dict_get (calculate_weighted_averages logs stat [5, 10, 15]) (Last 5) d
           = average (stat_column stat (take 5 logs))"
    and "dict_get (calculate_weighted_averages logs stat [5, 10, 15]) (Last 10) d
           = average (stat_column stat (take 10 logs))"
    and "dict_get (calculate_weighted_averages logs stat [5, 10, 15]) Season d
           = average (stat_column stat logs)"
proof -
  have ne: "take n logs = [] \<longleftrightarrow> n = 0" for n using assms by (cases logs) auto
  show "dict_get (calculate_weighted_averages logs stat [5, 10, 15]) (Last 5) d
           = average (stat_column stat (take 5 logs))"
    using assms
    by (simp add: calculate_weighted_averages_def window_step_def py_slice_to_def dict_get_def
        Let_def ne)
  show "dict_get (calculate_weighted_averages logs stat [5, 10, 15]) (Last 10) d
           = average (stat_column stat (take 10 logs))"
    using assms
    by (simp add: calculate_weighted_averages_def window_step_def py_slice_to_def dict_get_def
        Let_def ne)
  show "dict_get (calculate_weighted_averages logs stat [5, 10, 15]) Season d
           = average (stat_column stat logs)"
    using assms
    by (simp add: calculate_weighted_averages_def window_step_def py_slice_to_def dict_get_def
        Let_def ne)
qed

lemma baseline_eq:
  assumes "logs \<noteq> []"
  shows "dict_get (calculate_weighted_averages logs (prop_type p) [5, 10, 15]) (Last 5) (prop_line p) * 0.5
     + dict_get (calculate_weighted_averages logs (prop_type p) [5, 10, 15]) (Last 10) (prop_line p) * 0.3
     + dict_get (calculate_weighted_averages logs (prop_type p) [5, 10, 15]) Season (prop_line p) * 0.2
     = weighted_baseline p logs"
  unfolding weighted_averages_lookup[OF assms] weighted_baseline_def by simp

lemma projection_range_no_history:
  "calculate_projection_range p [] edges = (prop_line p - 2, prop_line p + 2)"
  by (simp add: calculate_projection_range_def)

lemma projection_range_with_history:
  assumes ne: "logs \<noteq> []"
  shows "calculate_projection_range p logs edges =
          (let vals = get_stat_values (take 10 logs) (prop_type p);
               sd = (if length logs \<ge> 5 \<and> length vals \<ge> 2 then stdev vals else 2.0);
               mid = weighted_baseline p logs + edge_adjustment_sum edges
           in (mid - sd, mid + sd))"
proof -
  have sl: "py_slice_to 10 logs = take 10 logs" by (simp add: py_slice_to_def)
  let ?vals = "get_stat_values (take 10 logs) (prop_type p)"
  have sd: "(if length logs \<ge> 5 then
               (if ?vals \<noteq> [] then (if length ?vals > 1 then stdev ?vals else 2.0) else 2.0)
             else 2.0)
           = (if length logs \<ge> 5 \<and> length ?vals \<ge> 2 then stdev ?vals else 2.0)"
  proof -
    have "length ?vals > 1 \<longleftrightarrow> length ?vals \<ge> 2" by arith
    moreover have "length ?vals \<ge> 2 \<longrightarrow> ?vals \<noteq> []" by auto
    ultimately show ?thesis by simp
  qed
  show ?thesis
    unfolding calculate_projection_range_def Let_def sl sd baseline_eq[OF ne]
      edge_adjustment_loop_sum
    using ne by simp
qed

text \<open>
  Claim C6, amended. Without history the range is the line minus 2 to the line plus 2.
  With history it is the weighted baseline (0.5, 0.3 and 0.2 on the averages of the last
  5 games, the last 10 games and the whole history) plus the edge adjustment (the sum of
  (strength - 0.5) * 2 over the matched edges of strength above 0.5, clamped to -2 and 4),
  widened on both sides by the sample standard deviation of the statistic over the
  trailing ten games when the history has at least five games and these give at least two
  values, and by 2.0 otherwise.
\<close>

theorem projection_range_by_design:
  "calculate_projection_range p [] edges = (prop_line p - 2, prop_line p + 2)
   \<and> (logs \<noteq> [] \<longrightarrow>
        calculate_projection_range p logs edges =
          (let vals = get_stat_values (take 10 logs) (prop_type p);
               sd = (if length logs \<ge> 5 \<and> length vals \<ge> 2 then stdev vals else 2.0);
               mid = weighted_baseline p logs + edge_adjustment_sum edges
           in (mid - sd, mid + sd)))"
  using projection_range_no_history projection_range_with_history by blast

lemma points_logs_values:
  "stat_column ''points'' (map points_log ns) = map real_of_int ns"
  "get_stat_values (map points_log ns) ''points'' = map real_of_int ns"
proof -
  show "stat_column ''points'' (map points_log ns) = map real_of_int ns"
    by (simp add: stat_column_def points_log_def comp_def)
  have "fold (\<lambda>g vals. vals @ stat_value_of ''points'' g) (map points_log ns) acc
      = acc @ map real_of_int ns" for acc
    by (induction ns arbitrary: acc) (simp_all add: stat_value_of_def points_log_def)
  then show "get_stat_values (map points_log ns) ''points'' = map real_of_int ns"
    by (simp add: get_stat_values_def)
qed

lemma points_example_values:
  "stat_column ''points'' [points_log 10, points_log 20, points_log 30] = [10, 20, 30]"
  "get_stat_values [points_log 10, points_log 20, points_log 30] ''points'' = [10, 20, 30]"
  using points_logs_values[of "[10, 20, 30]"] by simp_all

lemma points_prop_fields: "prop_type points_prop = ''points''" "prop_line points_prop = 20"
  by (simp_all add: points_prop_def example_prop_def)

lemma baseline_example: "weighted_baseline points_prop (map points_log [10, 20, 30]) = 20"
  by (simp add: weighted_baseline_def points_prop_fields points_example_values average_def)

lemma stdev_example: "stdev [10, 20, 30] = 10"
proof -
  have "sample_variance [10, 20, 30] = 10\<^sup>2" by (simp add: sample_variance_def)
  then show ?thesis by (simp add: stdev_def)
qed

text \<open>
  Claim C6, against the claim as stated: with a history of three games of 10, 20 and 30
  points the code widens the range by 2.0, not by the standard deviation 10 of the three
  games.
\<close>

theorem projection_range_short_history_counterexample:
  "calculate_projection_range points_prop (map points_log [10, 20, 30]) []
     \<noteq> claimed_projection_range points_prop (map points_log [10, 20, 30]) []
   \<and> calculate_projection_range points_prop (map points_log [10, 20, 30]) [] = (18, 22)
   \<and> claimed_projection_range points_prop (map points_log [10, 20, 30]) [] = (10, 30)"
proof -
  have "calculate_projection_range points_prop (map points_log [10, 20, 30]) [] = (18, 22)"
    and "claimed_projection_range points_prop (map points_log [10, 20, 30]) [] = (10, 30)"
  proof -
  show "calculate_projection_range points_prop (map points_log [10, 20, 30]) [] = (18, 22)"
    using projection_range_with_history [of "map points_log [10, 20, 30]" points_prop "[]"]
      baseline_example
    by (simp add: edge_adjustment_sum_def)
  show "claimed_projection_range points_prop (map points_log [10, 20, 30]) [] = (10, 30)"
    using baseline_example
    by (simp add: claimed_projection_range_def Let_def points_prop_fields
        points_example_values edge_adjustment_sum_def stdev_example)
  qed
  then show ?thesis by simp
qed

theorem projection_range_by_design_witness:
  "map points_log [10, 20, 30] \<noteq> []
   \<and> calculate_projection_range points_prop [] [] = (18, 22)
   \<and> calculate_projection_range points_prop (map points_log [10, 20, 30]) [example_edge]
       = (18.4, 22.4)"
  using projection_range_by_design [of points_prop "[]" "map points_log [10, 20, 30]"]
    projection_range_by_design [of points_prop "[example_edge]" "map points_log [10, 20, 30]"]
    baseline_example
  by (simp add: edge_adjustment_sum_def points_prop_fields example_edge_def)

subsection \<open>Strength of the pace edges\<close>

lemma high_pace_edge_strength_bounds:
  assumes "(home_pace + away_pace) / 2 \<ge> 102.0"
  shows "0.4 \<le> edge_strength (high_pace_edge fmt1 g home_pace away_pace)"
    and "edge_strength (high_pace_edge fmt1 g home_pace away_pace) \<le> 0.6"
proof -
  let ?s = "0.3 + (((home_pace + away_pace) / 2 - 100) * 0.05)"
  have es: "edge_strength (high_pace_edge fmt1 g home_pace away_pace) = min ?s 0.6"
    by (simp add: high_pace_edge_def Let_def)
  have "0.4 \<le> ?s" using assms by (simp add: field_simps)
  then show "0.4 \<le> edge_strength (high_pace_edge fmt1 g home_pace away_pace)"
    unfolding es by simp
  show "edge_strength (high_pace_edge fmt1 g home_pace away_pace) \<le> 0.6"
    unfolding es by (rule min.cobounded2)
qed

text \<open>
  Claim C2, at a failing input: with paces of 115 and 100 the detector emits the high-pace
  edge with the capped strength 0.6 and the pace-mismatch edge with the strength
  0.3 + 15 * 0.05 = 1.05, above 1.
\<close>

theorem pace_mismatch_strength_exceeds_one:
  "map edge_strength (find_pace_edges fmt1 example_team_stats [example_game]) = [0.6, 1.05]
   \<and> map edge_description (find_pace_edges fmt1 example_team_stats [example_game])
       = [''High pace environment ('' @ fmt1 107.5 @
            '') - increased counting stat opportunities'',
          ''Pace mismatch: BOS ('' @ fmt1 115 @ '') vs LAL ('' @ fmt1 100 @ '')'']
   \<and> 1 < edge_strength (find_pace_edges fmt1 example_team_stats [example_game] ! 1)"
proof -
  have e: "find_pace_edges fmt1 example_team_stats [example_game]
      = [high_pace_edge fmt1 example_game 115 100, pace_mismatch_edge fmt1 example_game 115 100]"
    by (simp add: find_pace_edges_def pace_edges_for_game_def team_pace_def
        example_team_stats_def example_game_def)
  show ?thesis unfolding e
    by (simp add: high_pace_edge_def pace_mismatch_edge_def Let_def example_game_def)
qed


end
